theory Spec2Isabelle
  imports Complex_Main "HOL-Library.Word"
begin

section \<open>JavaScript strings\<close>

text \<open>
  A JavaScript string is a sequence of 16-bit UTF-16 code units. String literals of the
  source are written \<open>js ''...''\<close>.
\<close>

type_synonym jschar = "16 word"
type_synonym jsstring = "jschar list"

definition js :: "string \<Rightarrow> jsstring" where
  "js s = map of_char s"

text \<open>
  The class \<open>\s\<close> of regular expressions, which is also what \<open>String.prototype.trim\<close>
  strips: WhiteSpace and LineTerminator of ECMAScript.
\<close>

definition isJsSpace :: "jschar \<Rightarrow> bool" where
  "isJsSpace c \<longleftrightarrow>
     c = 0x09 \<or> c = 0x0A \<or> c = 0x0B \<or> c = 0x0C \<or> c = 0x0D \<or> c = 0x20 \<or> c = 0xA0 \<or>
     c = 0x1680 \<or> (0x2000 \<le> c \<and> c \<le> 0x200A) \<or> c = 0x2028 \<or> c = 0x2029 \<or>
     c = 0x202F \<or> c = 0x205F \<or> c = 0x3000 \<or> c = 0xFEFF"

definition isDigit :: "jschar \<Rightarrow> bool" where
  "isDigit c \<longleftrightarrow> 0x30 \<le> c \<and> c \<le> 0x39"

definition isUpper :: "jschar \<Rightarrow> bool" where
  "isUpper c \<longleftrightarrow> 0x41 \<le> c \<and> c \<le> 0x5A"

definition isLower :: "jschar \<Rightarrow> bool" where
  "isLower c \<longleftrightarrow> 0x61 \<le> c \<and> c \<le> 0x7A"

definition isLetter :: "jschar \<Rightarrow> bool" where
  "isLetter c \<longleftrightarrow> isUpper c \<or> isLower c"

definition trim :: "jsstring \<Rightarrow> jsstring" where
  "trim s = rev (dropWhile isJsSpace (rev (dropWhile isJsSpace s)))"

text \<open>
  \<open>toLowerCase\<close> and \<open>toUpperCase\<close> on the strings the modelled functions apply them
  to: ASCII characters and white space (which has no case). Every other code unit is
  left as it is.
\<close>

definition lowerChar :: "jschar \<Rightarrow> jschar" where
  "lowerChar c = (if isUpper c then c + 0x20 else c)"

definition upperChar :: "jschar \<Rightarrow> jschar" where
  "upperChar c = (if isLower c then c - 0x20 else c)"

definition toLowerCase :: "jsstring \<Rightarrow> jsstring" where
  "toLowerCase s = map lowerChar s"

definition toUpperCase :: "jsstring \<Rightarrow> jsstring" where
  "toUpperCase s = map upperChar s"

text \<open>\<open>s.split(sep)\<close> and \<open>parts.join(sep)\<close> for a one-character separator.\<close>

fun js_split :: "jschar \<Rightarrow> jsstring \<Rightarrow> jsstring list" where
  "js_split sep [] = [[]]"
| "js_split sep (c # cs) =
     (if c = sep then [] # js_split sep cs
      else (case js_split sep cs of
              [] \<Rightarrow> [[c]]
            | p # ps \<Rightarrow> (c # p) # ps))"

fun js_join :: "jschar \<Rightarrow> jsstring list \<Rightarrow> jsstring" where
  "js_join sep [] = []"
| "js_join sep [p] = p"
| "js_join sep (p # q # ps) = p @ sep # js_join sep (q # ps)"

text \<open>\<open>s.slice(a, b)\<close> and \<open>s.slice(a)\<close> for non-negative indices.\<close>

definition slice :: "nat \<Rightarrow> nat \<Rightarrow> jsstring \<Rightarrow> jsstring" where
  "slice a b s = take (b - a) (drop a s)"

definition sliceFrom :: "nat \<Rightarrow> jsstring \<Rightarrow> jsstring" where
  "sliceFrom a s = drop a s"

section \<open>utils.js: name formatting\<close>

text \<open>\<open>name.replace(/\s+/g, " ")\<close>: every maximal run of white space becomes one space.\<close>

fun collapseFrom :: "bool \<Rightarrow> jsstring \<Rightarrow> jsstring" where
  "collapseFrom inRun [] = []"
| "collapseFrom inRun (c # cs) =
     (if isJsSpace c then (if inRun then collapseFrom True cs else 0x20 # collapseFrom True cs)
      else c # collapseFrom False cs)"

definition collapseSpaces :: "jsstring \<Rightarrow> jsstring" where
  "collapseSpaces s = collapseFrom False s"

text \<open>\<open>name.replace(/\s+/g, "")\<close>.\<close>

definition removeSpaces :: "jsstring \<Rightarrow> jsstring" where
  "removeSpaces s = filter (\<lambda>c. \<not> isJsSpace c) s"

text \<open>The tests \<open>/^[A-Za-z' -]+$/\<close> (last names) and \<open>/^[A-Za-z'-]+$/\<close> (first names).\<close>

definition allowedName :: "bool \<Rightarrow> jsstring \<Rightarrow> bool" where
  "allowedName isLastName s \<longleftrightarrow>
     s \<noteq> [] \<and>
     (\<forall>c \<in> set s. isLetter c \<or> c = 0x27 \<or> c = 0x2D \<or> (isLastName \<and> c = 0x20))"

definition particles :: "jsstring list" where
  "particles = map js [''de'', ''del'', ''la'', ''las'', ''los'', ''da'', ''das'', ''dos'',
                       ''van'', ''von'', ''der'', ''den'', ''le'', ''du'', ''di'']"

text \<open>\<open>part.charAt(0).toUpperCase() + part.slice(1)\<close>; the empty part stays empty.\<close>

definition capFirst :: "jsstring \<Rightarrow> jsstring" where
  "capFirst part = toUpperCase (take 1 part) @ sliceFrom 1 part"

definition capitalize :: "jsstring \<Rightarrow> jsstring" where
  "capitalize word =
     (let lower = toLowerCase word in
      if lower \<in> set particles then lower
      else if 0x2D \<in> set lower then js_join 0x2D (map capFirst (js_split 0x2D lower))
      else if 0x27 \<in> set lower then js_join 0x27 (map capFirst (js_split 0x27 lower))
      else capFirst lower)"

text \<open>\<open>formatName\<close> returns \<open>null\<close> (here \<open>None\<close>) for a name it rejects.\<close>

definition formatName :: "jsstring \<Rightarrow> bool \<Rightarrow> jsstring option" where
  "formatName name0 isLastName =
     (let name1 = trim name0;
          name = (if isLastName then collapseSpaces name1 else removeSpaces name1)
      in if \<not> allowedName isLastName name then None
         else if length name < 1 \<or> length name > 30 then None
         else let parts = (if isLastName then js_split 0x20 name else [name])
              in Some (js_join 0x20 (map capitalize parts)))"

section \<open>utils.js: phone numbers\<close>

text \<open>
  \<open>formatPhone\<close> builds the pretty form \<open>+cc (ddd) ddd-dddd\<close> and the E.164 form.
\<close>

record phoneForms =
  pretty :: jsstring
  e164 :: jsstring

definition formatPhone :: "jsstring \<Rightarrow> jsstring \<Rightarrow> phoneForms" where
  "formatPhone countryCode local =
     \<lparr> pretty = js ''+'' @ countryCode @ js '' ('' @ slice 0 3 local @ js '') '' @
                 slice 3 6 local @ js ''-'' @ sliceFrom 6 local,
       e164 = js ''+'' @ countryCode @ local \<rparr>"

record parsedPhone =
  cc :: jsstring
  local :: jsstring
  prettyLocal :: jsstring

text \<open>
  The tail \<open>\s*\((\d{3})\)\s*(\d{3})-(\d{4})$\<close> of the pattern of \<open>parsePrettyPhone10\<close>.
  White space is followed by a character that is no white space, so the greedy \<open>\s*\<close>
  never gives characters back.
\<close>

definition matchLocal :: "jsstring \<Rightarrow> (jsstring \<times> jsstring \<times> jsstring) option" where
  "matchLocal s =
     (case dropWhile isJsSpace s of
        p # r1 \<Rightarrow>
          if p = 0x28 \<and> length r1 \<ge> 4 \<and> list_all isDigit (take 3 r1) \<and> r1 ! 3 = 0x29 then
            (let r2 = dropWhile isJsSpace (drop 4 r1) in
             if length r2 = 8 \<and> list_all isDigit (take 3 r2) \<and> r2 ! 3 = 0x2D \<and>
                list_all isDigit (drop 4 r2)
             then Some (take 3 r1, take 3 r2, drop 4 r2)
             else None)
          else None
      | [] \<Rightarrow> None)"

text \<open>
  The head \<open>^\+?(\d{1,3})\<close>: the optional plus sign, then three, two or one digits,
  tried in the order of the greedy quantifier.
\<close>

definition matchFrom :: "jsstring \<Rightarrow> (jsstring \<times> jsstring \<times> jsstring \<times> jsstring) option" where
  "matchFrom s =
     (let try = (\<lambda>n. if n \<le> length s \<and> list_all isDigit (take n s)
                      then map_option (\<lambda>(a, b, c). (take n s, a, b, c)) (matchLocal (drop n s))
                      else None)
      in case try 3 of Some m \<Rightarrow> Some m
         | None \<Rightarrow> (case try 2 of Some m \<Rightarrow> Some m | None \<Rightarrow> try 1))"

definition matchPretty :: "jsstring \<Rightarrow> (jsstring \<times> jsstring \<times> jsstring \<times> jsstring) option" where
  "matchPretty s =
     (case (case s of c # r \<Rightarrow> if c = 0x2B then matchFrom r else None | [] \<Rightarrow> None) of
        Some m \<Rightarrow> Some m
      | None \<Rightarrow> matchFrom s)"

definition parsePrettyPhone10 :: "jsstring \<Rightarrow> parsedPhone option" where
  "parsePrettyPhone10 prettyPhone =
     (case matchPretty prettyPhone of
        None \<Rightarrow> None
      | Some (m1, m2, m3, m4) \<Rightarrow>
          Some \<lparr> cc = m1, local = m2 @ m3 @ m4,
                 prettyLocal = js ''('' @ m2 @ js '')-'' @ m3 @ js ''-'' @ m4 \<rparr>)"

section \<open>utils.js: colors, e-mail addresses, links\<close>

definition isHexDigit :: "jschar \<Rightarrow> bool" where
  "isHexDigit c \<longleftrightarrow> isDigit c \<or> (0x61 \<le> c \<and> c \<le> 0x66) \<or> (0x41 \<le> c \<and> c \<le> 0x46)"

definition isLowerHexDigit :: "jschar \<Rightarrow> bool" where
  "isLowerHexDigit c \<longleftrightarrow> isDigit c \<or> (0x61 \<le> c \<and> c \<le> 0x66)"

text \<open>\<open>/^#([0-9a-fA-F]{3}|[0-9a-fA-F]{6})$/.test((value || '').trim())\<close>\<close>

definition isHexColor :: "jsstring \<Rightarrow> bool" where
  "isHexColor v =
     (case trim v of
        [] \<Rightarrow> False
      | h # ds \<Rightarrow> h = 0x23 \<and> (length ds = 3 \<or> length ds = 6) \<and> list_all isHexDigit ds)"

definition pickColor :: "jsstring \<Rightarrow> jsstring \<Rightarrow> jsstring \<Rightarrow> jsstring" where
  "pickColor textVal pickerVal fallback =
     (let trimmed = trim textVal in
      if isHexColor trimmed then toLowerCase trimmed
      else if isHexColor pickerVal then toLowerCase pickerVal
      else fallback)"

text \<open>
  The patterns of the colour invariant: \<open>#[0-9a-f]{6}\<close>, and the one the code keeps,
  \<open>#([0-9a-f]{3}|[0-9a-f]{6})\<close>.
\<close>

definition isLowerHex6 :: "jsstring \<Rightarrow> bool" where
  "isLowerHex6 s =
     (case s of [] \<Rightarrow> False | h # ds \<Rightarrow> h = 0x23 \<and> length ds = 6 \<and> list_all isLowerHexDigit ds)"

definition isLowerHex3or6 :: "jsstring \<Rightarrow> bool" where
  "isLowerHex3or6 s =
     (case s of
        [] \<Rightarrow> False
      | h # ds \<Rightarrow> h = 0x23 \<and> (length ds = 3 \<or> length ds = 6) \<and> list_all isLowerHexDigit ds)"

text \<open>\<open>s.includes(t)\<close>, \<open>s.startsWith(t)\<close>, \<open>s.endsWith(t)\<close>.\<close>

fun js_includes :: "jsstring \<Rightarrow> jsstring \<Rightarrow> bool" where
  "js_includes [] t = (t = [])"
| "js_includes (c # cs) t = (take (length t) (c # cs) = t \<or> js_includes cs t)"

definition startsWith :: "jsstring \<Rightarrow> jsstring \<Rightarrow> bool" where
  "startsWith s t \<longleftrightarrow> take (length t) s = t"

definition endsWith :: "jsstring \<Rightarrow> jsstring \<Rightarrow> bool" where
  "endsWith s t \<longleftrightarrow> length t \<le> length s \<and> drop (length s - length t) s = t"

text \<open>
  \<open>getEmailErrors\<close>: the list of messages, each check in the order of the source. The
  messages are abbreviated to a tag.
\<close>

datatype emailError =
    EmailLength | AtCount | ConsecutiveDots | StartsWithDot | EndsWithDot | StartsWithDash
  | MissingLocal | DomainNoDot | DomainConsecutiveDots | DomainStartsWithDot
  | DomainEndsWithDot | DomainHasNumbers | TldTooShort

definition getEmailErrors :: "jsstring \<Rightarrow> emailError list" where
  "getEmailErrors email =
     (let trimmed = toLowerCase (trim email);
          atCount = length (filter (\<lambda>c. c = 0x40) trimmed)
      in (if length trimmed < 5 \<or> length trimmed > 80 then [EmailLength] else []) @
         (if atCount \<noteq> 1 then [AtCount] else []) @
         (if js_includes trimmed (js ''..'') then [ConsecutiveDots] else []) @
         (if startsWith trimmed (js ''.'') then [StartsWithDot] else []) @
         (if endsWith trimmed (js ''.'') then [EndsWithDot] else []) @
         (if startsWith trimmed (js ''-'') then [StartsWithDash] else []) @
         (if atCount = 1 then
            (let localPart = takeWhile (\<lambda>c. c \<noteq> 0x40) trimmed;
                 domainPart = drop 1 (dropWhile (\<lambda>c. c \<noteq> 0x40) trimmed);
                 tld = last (js_split 0x2E domainPart)
             in (if localPart = [] then [MissingLocal] else []) @
                (if \<not> js_includes domainPart (js ''.'') then [DomainNoDot] else []) @
                (if js_includes domainPart (js ''..'') then [DomainConsecutiveDots] else []) @
                (if startsWith domainPart (js ''.'') then [DomainStartsWithDot] else []) @
                (if endsWith domainPart (js ''.'') then [DomainEndsWithDot] else []) @
                (if list_ex isDigit domainPart then [DomainHasNumbers] else []) @
                (if length tld < 2 then [TldTooShort] else []))
          else []))"

text \<open>\<open>fixUrl\<close>: the test \<open>/^https?:\/\//i\<close> ignores the case of the ASCII letters.\<close>

definition fixUrl :: "jsstring \<Rightarrow> jsstring" where
  "fixUrl url0 =
     (if trim url0 = [] then []
      else let url = trim url0 in
        if toLowerCase (take 7 url) = js ''http://'' \<or> toLowerCase (take 8 url) = js ''https://''
        then url
        else js ''https://'' @ url)"

section \<open>The card and its storage\<close>

text \<open>
  A card as \<open>saveSettings\<close> writes it. A field is \<open>None\<close> where the stored object has no
  such property (reading it gives \<open>undefined\<close>): cards of earlier versions lack some, and
  their \<open>resume\<close> link is one string instead of the two slots.
\<close>

record resumeLinks =
  pdf :: jsstring
  docx :: jsstring

datatype resumeField = ResumeString jsstring | ResumeObject resumeLinks

record portfolioLinks =
  cert :: "jsstring option"
  edu :: "jsstring option"
  proj :: "jsstring option"
  ref :: "jsstring option"
  resume :: "resumeField option"
  work :: "jsstring option"

record portfolioVisibility =
  showCert :: "bool option"
  showEdu :: "bool option"
  showProj :: "bool option"
  showRef :: "bool option"
  showResume :: "bool option"
  showWork :: "bool option"

record card =
  firstName :: "jsstring option"
  lastName :: "jsstring option"
  jobTitle :: "jsstring option"
  email :: "jsstring option"
  phone :: "jsstring option"
  phoneE164 :: "jsstring option"
  countryCode :: "jsstring option"
  localNumber :: "jsstring option"
  linkedin :: "jsstring option"
  cardColor :: "jsstring option"
  bgColor :: "jsstring option"
  profilePic :: "jsstring option"
  portfolioLinks :: "portfolioLinks option"
  portfolioVisibility :: "portfolioVisibility option"
  lastUpdated :: "jsstring option"

text \<open>
  What \<open>buildShareObj\<close> returns: its \<open>resume\<close> link always has the two slots, and a saved
  contact is such an object with the time it was saved.
\<close>

record shareLinks =
  s_cert :: "jsstring option"
  s_edu :: "jsstring option"
  s_proj :: "jsstring option"
  s_ref :: "jsstring option"
  s_resume :: resumeLinks
  s_work :: "jsstring option"

record shareObj =
  c_firstName :: "jsstring option"
  c_lastName :: "jsstring option"
  c_jobTitle :: "jsstring option"
  c_email :: "jsstring option"
  c_phone :: "jsstring option"
  c_phoneE164 :: "jsstring option"
  c_linkedin :: "jsstring option"
  c_cardColor :: "jsstring option"
  c_bgColor :: "jsstring option"
  c_profilePic :: "jsstring option"
  c_portfolioLinks :: shareLinks
  c_portfolioVisibility :: portfolioVisibility

record contact = shareObj +
  savedAt :: "jsstring option"

text \<open>
  \<open>localStorage\<close> holds the JSON text of the card under \<open>myCard\<close> and of the contact list
  under \<open>savedContacts\<close>; the model holds the values, \<open>None\<close> for a key that is not set.
  Whether \<open>setItem\<close> succeeds (it throws when the quota is exceeded) is an input
  \<open>ok\<close> of each function that writes.
\<close>

record storage =
  myCard :: "card option"
  savedContacts :: "contact list option"

definition getMyCard :: "storage \<Rightarrow> card option" where
  "getMyCard st = myCard st"

definition saveMyCard :: "bool \<Rightarrow> card \<Rightarrow> storage \<Rightarrow> bool \<times> storage" where
  "saveMyCard ok cardData st = (if ok then (True, st\<lparr>myCard := Some cardData\<rparr>) else (False, st))"

definition getSavedContacts :: "storage \<Rightarrow> contact list" where
  "getSavedContacts st = (case savedContacts st of None \<Rightarrow> [] | Some cs \<Rightarrow> cs)"

definition saveSavedContacts :: "bool \<Rightarrow> contact list \<Rightarrow> storage \<Rightarrow> bool \<times> storage" where
  "saveSavedContacts ok contacts st =
     (if ok then (True, st\<lparr>savedContacts := Some contacts\<rparr>) else (False, st))"

section \<open>storage.js: contacts\<close>

text \<open>The test of \<open>contacts.some(...)\<close> in \<open>addContact\<close>.\<close>

definition sameTriple :: "contact \<Rightarrow> contact \<Rightarrow> bool" where
  "sameTriple c contact \<longleftrightarrow>
     c_firstName c = c_firstName contact \<and>
     c_lastName c = c_lastName contact \<and>
     c_email c = c_email contact"

text \<open>\<open>now\<close> is \<open>new Date().toISOString()\<close> at the call.\<close>

definition addContact :: "jsstring \<Rightarrow> bool \<Rightarrow> contact \<Rightarrow> storage \<Rightarrow> bool \<times> storage" where
  "addContact now ok contact st =
     (let contacts = getSavedContacts st;
          exists = list_ex (\<lambda>c. sameTriple c contact) contacts
      in if exists then (False, st)
         else saveSavedContacts ok (contacts @ [contact\<lparr>savedAt := Some now\<rparr>]) st)"

text \<open>\<open>contacts.splice(index, 1)\<close> for an index within the list.\<close>

definition splice1 :: "nat \<Rightarrow> 'a list \<Rightarrow> 'a list" where
  "splice1 i xs = take i xs @ drop (Suc i) xs"

definition removeContact :: "bool \<Rightarrow> int \<Rightarrow> storage \<Rightarrow> bool \<times> storage" where
  "removeContact ok index st =
     (let contacts = getSavedContacts st in
      if index < 0 \<or> index \<ge> int (length contacts) then (False, st)
      else saveSavedContacts ok (splice1 (nat index) contacts) st)"

section \<open>Settings: saving the card\<close>

definition ALLOWED_COUNTRY_CODES :: "jsstring list" where
  "ALLOWED_COUNTRY_CODES = map js [''1'', ''44'', ''61'', ''81'', ''91'', ''353'']"

text \<open>The values of the inputs of the settings form when \<open>saveSettings\<close> runs.\<close>

record settingsForm =
  firstNameInput :: jsstring
  lastNameInput :: jsstring
  emailInput :: jsstring
  linkedinInput :: jsstring
  jobTitleInput :: jsstring
  countryCodeSelect :: jsstring
  localNumberInput :: jsstring
  cardColorInput :: jsstring
  cardColorPicker :: jsstring
  bgColorInput :: jsstring
  bgColorPicker :: jsstring
  certPageInput :: jsstring
  eduPageInput :: jsstring
  projPageInput :: jsstring
  refPageInput :: jsstring
  resumePdfInput :: jsstring
  resumeDocxInput :: jsstring
  workPageInput :: jsstring
  showCertifications :: bool
  showEducation :: bool
  showProjects :: bool
  showReferences :: bool
  showResumeBox :: bool
  showWorkBox :: bool

text \<open>
  How \<open>saveSettings\<close> ends: at one of its early returns (an alert or a phone error was
  shown and nothing was written), or with the card saved.
\<close>

datatype phoneProblem = ChooseCountryCode | CountryCodeNotAllowed | NotTenLong | DigitsOnly

datatype saveResult =
    InvalidFirstName
  | InvalidLastName
  | EmailInvalid "emailError list"
  | PhoneError phoneProblem
  | StorageFailed
  | Saved card

text \<open>
  \<open>uploadedImageData\<close> is the global set by the crop tool (\<open>None\<close> for \<open>null\<close>),
  \<open>profilePicSrc\<close> the \<open>src\<close> of the picture on the page, \<open>now\<close> the time of the call
  as text.
\<close>

definition saveSettings ::
  "settingsForm \<Rightarrow> jsstring option \<Rightarrow> jsstring \<Rightarrow> jsstring \<Rightarrow> bool \<Rightarrow> storage
     \<Rightarrow> saveResult \<times> storage" where
  "saveSettings f uploadedImageData profilePicSrc now ok st =
     (let first = formatName (firstNameInput f) False;
          last = formatName (lastNameInput f) True
      in if first = None \<or> first = Some [] then (InvalidFirstName, st)
         else if last = None \<or> last = Some [] then (InvalidLastName, st)
         else
           let emailErrors = getEmailErrors (emailInput f) in
           if emailErrors \<noteq> [] then (EmailInvalid emailErrors, st)
           else
             let email' = toLowerCase (trim (emailInput f));
                 linkedin' = fixUrl (linkedinInput f);
                 jobTitle' = jobTitleInput f;
                 countryCode' = trim (countryCodeSelect f);
                 localNumber' = trim (localNumberInput f)
             in if countryCode' = [] then (PhoneError ChooseCountryCode, st)
                else if countryCode' \<notin> set ALLOWED_COUNTRY_CODES
                  then (PhoneError CountryCodeNotAllowed, st)
                else if length localNumber' \<noteq> 10 then (PhoneError NotTenLong, st)
                else if \<not> list_all isDigit localNumber' then (PhoneError DigitsOnly, st)
                else
                  let cardColor' = pickColor (cardColorInput f) (cardColorPicker f) (js ''#6366f1'');
                      bgColor' = pickColor (bgColorInput f) (bgColorPicker f) (js ''#6B46C1'');
                      profilePicData =
                        (case uploadedImageData of
                           None \<Rightarrow> profilePicSrc
                         | Some d \<Rightarrow> if d = [] then profilePicSrc else d);
                      formattedPhone = formatPhone countryCode' localNumber';
                      cardData =
                        \<lparr> firstName = first,
                          lastName = last,
                          jobTitle = Some jobTitle',
                          email = Some email',
                          phone = Some (pretty formattedPhone),
                          phoneE164 = Some (e164 formattedPhone),
                          countryCode = Some countryCode',
                          localNumber = Some localNumber',
                          linkedin = Some linkedin',
                          cardColor = Some cardColor',
                          bgColor = Some bgColor',
                          profilePic = Some profilePicData,
                          portfolioLinks = Some
                            \<lparr> cert = Some (fixUrl (certPageInput f)),
                              edu = Some (fixUrl (eduPageInput f)),
                              proj = Some (fixUrl (projPageInput f)),
                              ref = Some (fixUrl (refPageInput f)),
                              resume = Some (ResumeObject
                                \<lparr> pdf = fixUrl (resumePdfInput f),
                                  docx = fixUrl (resumeDocxInput f) \<rparr>),
                              work = Some (fixUrl (workPageInput f)) \<rparr>,
                          portfolioVisibility = Some
                            \<lparr> showCert = Some (showCertifications f),
                              showEdu = Some (showEducation f),
                              showProj = Some (showProjects f),
                              showRef = Some (showReferences f),
                              showResume = Some (showResumeBox f),
                              showWork = Some (showWorkBox f) \<rparr>,
                          lastUpdated = Some now \<rparr>
                  in (case saveMyCard ok cardData st of
                        (False, st') \<Rightarrow> (StorageFailed, st')
                      | (True, st') \<Rightarrow> (Saved cardData, st')))"

section \<open>The crop tool\<close>

text \<open>
  The crop state. Coordinates and scales are JavaScript numbers; the model computes with
  exact reals, so rounding is not modelled, and a division by a zero scale (which gives
  an infinity or NaN in JavaScript) has no result in the model.
\<close>

record cropState =
  originalImage :: "jsstring option"
  scale :: real
  position :: "real \<times> real"
  isDragging :: bool
  dragStart :: "real \<times> real"

text \<open>
  The handlers that \<open>setupCropListeners\<close> installs. A mouse event carries
  \<open>(clientX, clientY)\<close>; a touch event those of its first touch, \<open>e.touches[0]\<close>.
\<close>

definition onmousedown :: "real \<times> real \<Rightarrow> cropState \<Rightarrow> cropState" where
  "onmousedown e st =
     st\<lparr> isDragging := True,
         dragStart := (fst e - fst (position st), snd e - snd (position st)) \<rparr>"

definition onmousemove :: "real \<times> real \<Rightarrow> cropState \<Rightarrow> cropState" where
  "onmousemove e st =
     (if isDragging st
      then st\<lparr> position := (fst e - fst (dragStart st), snd e - snd (dragStart st)) \<rparr>
      else st)"

definition onmouseup :: "cropState \<Rightarrow> cropState" where
  "onmouseup st = st\<lparr> isDragging := False \<rparr>"

definition touchstart :: "real \<times> real \<Rightarrow> cropState \<Rightarrow> cropState" where
  "touchstart touch st =
     st\<lparr> isDragging := True,
         dragStart := (fst touch - fst (position st), snd touch - snd (position st)) \<rparr>"

definition touchmove :: "real \<times> real \<Rightarrow> cropState \<Rightarrow> cropState" where
  "touchmove touch st =
     (if isDragging st
      then st\<lparr> position := (fst touch - fst (dragStart st), snd touch - snd (dragStart st)) \<rparr>
      else st)"

definition touchend :: "cropState \<Rightarrow> cropState" where
  "touchend st = (if isDragging st then st\<lparr> isDragging := False \<rparr> else st)"

text \<open>
  The zoom slider's \<open>oninput\<close>: \<open>v\<close> is the slider's value, \<open>clientWidth\<close> and
  \<open>clientHeight\<close> are those of the crop container.
\<close>

definition zoomInput :: "real \<Rightarrow> real \<Rightarrow> real \<Rightarrow> cropState \<Rightarrow> cropState option" where
  "zoomInput v clientWidth clientHeight st =
     (if scale st = 0 then None
      else
        let newScale = v / 100;
            scaleDiff = newScale / scale st;
            centerX = clientWidth / 2;
            centerY = clientHeight / 2
        in Some (st\<lparr> position := (centerX - (centerX - fst (position st)) * scaleDiff,
                                   centerY - (centerY - snd (position st)) * scaleDiff),
                     scale := newScale \<rparr>))"

section \<open>Example data\<close>

definition exampleForm :: settingsForm where
  "exampleForm =
     \<lparr> firstNameInput = js ''john'', lastNameInput = js ''o'brien-smith'',
       emailInput = js ''john@example.com'', linkedinInput = js ''linkedin.com/in/john'',
       jobTitleInput = js ''Engineer'', countryCodeSelect = js ''1'',
       localNumberInput = js ''5551234567'',
       cardColorInput = js ''#ABC'', cardColorPicker = js ''#000000'',
       bgColorInput = js ''none'', bgColorPicker = js ''#6b46c1'',
       certPageInput = [], eduPageInput = [], projPageInput = [], refPageInput = [],
       resumePdfInput = [], resumeDocxInput = [], workPageInput = [],
       showCertifications = True, showEducation = True, showProjects = True,
       showReferences = True, showResumeBox = True, showWorkBox = True \<rparr>"

definition exampleCard :: card where
  "exampleCard =
     \<lparr> firstName = Some (js ''John''), lastName = Some (js ''O'brien-Smith''),
       jobTitle = Some (js ''Engineer''), email = Some (js ''john@example.com''),
       phone = Some (js ''+1 (555) 123-4567''), phoneE164 = Some (js ''+15551234567''),
       countryCode = Some (js ''1''), localNumber = Some (js ''5551234567''),
       linkedin = Some (js ''https://linkedin.com/in/john''),
       cardColor = Some (js ''#abc''), bgColor = Some (js ''#6b46c1''),
       profilePic = Some (js ''https://example.com/p.png''),
       portfolioLinks = Some
         \<lparr> cert = Some [], edu = Some [], proj = Some [], ref = Some [],
           resume = Some (ResumeObject \<lparr> pdf = [], docx = [] \<rparr>), work = Some [] \<rparr>,
       portfolioVisibility = Some
         \<lparr> showCert = Some True, showEdu = Some True, showProj = Some True,
           showRef = Some True, showResume = Some True, showWork = Some True \<rparr>,
       lastUpdated = Some (js ''2024-01-01T00:00:00.000Z'') \<rparr>"

definition emptyStorage :: storage where
  "emptyStorage = \<lparr> myCard = None, savedContacts = None \<rparr>"

definition exampleContact :: "string \<Rightarrow> contact" where
  "exampleContact n =
     \<lparr> c_firstName = Some (js n), c_lastName = Some (js ''Doe''),
       c_jobTitle = None, c_email = Some (js ''doe@example.com''),
       c_phone = None, c_phoneE164 = None, c_linkedin = None,
       c_cardColor = Some (js ''#6366f1''), c_bgColor = Some (js ''#6b46c1''),
       c_profilePic = None,
       c_portfolioLinks =
         \<lparr> s_cert = None, s_edu = None, s_proj = None, s_ref = None,
           s_resume = \<lparr> pdf = [], docx = [] \<rparr>, s_work = None \<rparr>,
       c_portfolioVisibility =
         \<lparr> showCert = Some True, showEdu = Some True, showProj = Some True,
           showRef = Some True, showResume = Some True, showWork = Some True \<rparr>,
       savedAt = None \<rparr>"

definition threeContacts :: storage where
  "threeContacts =
     \<lparr> myCard = None,
       savedContacts = Some [exampleContact ''Ann'', exampleContact ''Bob'', exampleContact ''Cy''] \<rparr>"

definition draggingState :: cropState where
  "draggingState =
     \<lparr> originalImage = None, scale = 1, position = (0, 0), isDragging = True,
       dragStart = (5, 5) \<rparr>"

section \<open>Name formatting: the hyphen branch returns before the apostrophes are handled\<close>

text \<open>
  Claim C4. \<open>formatName("john", false)\<close> is \<open>"John"\<close>, but
  \<open>formatName("o'brien-smith", true)\<close> is \<open>"O'brien-Smith"\<close>, not \<open>"O'Brien-Smith"\<close>:
  \<open>capitalize\<close> returns from its hyphen branch, where it capitalizes the parts between
  hyphens only, and never reaches the apostrophe branch for a word that has both. The
  formatted name of the save is \<open>John O'brien-Smith\<close>.
\<close>

theorem formatName_hyphen_apostrophe:
  "formatName (js ''john'') False = Some (js ''John'') \<and>
   formatName (js ''o'brien-smith'') True = Some (js ''O'brien-Smith'') \<and>
   formatName (js ''o'brien-smith'') True \<noteq> Some (js ''O'Brien-Smith'') \<and>
   formatName (js ''o'brien'') True = Some (js ''O'Brien'')"
  by code_simp

section \<open>Colors of a saved card\<close>

lemma trim_idem: "trim (trim s) = trim s"
proof (cases "dropWhile isJsSpace s")
  case Nil
  show ?thesis unfolding trim_def Nil by simp
next
  case (Cons a w)
  then have a: "\<not> isJsSpace a" by (metis dropWhile_eq_Cons_conv)
  define z where "z = dropWhile isJsSpace (rev w)"
  have d: "dropWhile isJsSpace (rev w @ [a]) = z @ [a]"
    using a by (simp add: dropWhile_append z_def)
  have t: "trim s = a # rev z" by (simp add: trim_def Cons d)
  have "z \<noteq> [] \<Longrightarrow> \<not> isJsSpace (hd z)"
    unfolding z_def by (rule hd_dropWhile)
  then have "dropWhile isJsSpace (z @ [a]) = z @ [a]"
    using a by (cases z) auto
  then show ?thesis unfolding t using a by (simp add: trim_def)
qed

lemma lowerChar_hex: "isHexDigit d \<Longrightarrow> isLowerHexDigit (lowerChar d)"
  unfolding isHexDigit_def isLowerHexDigit_def lowerChar_def isUpper_def isDigit_def
  by (auto simp: word_le_nat_alt unat_word_ariths)

lemma lowerChar_hash: "lowerChar 0x23 = 0x23"
  by (simp add: lowerChar_def isUpper_def)

lemma isHexColor_lower: "isHexColor v \<Longrightarrow> isLowerHex3or6 (toLowerCase (trim v))"
  by (auto simp: isHexColor_def isLowerHex3or6_def toLowerCase_def lowerChar_hash list_all_iff
        lowerChar_hex split: list.splits)

text \<open>
  What \<open>pickColor\<close> guarantees of the color it returns for a text input and a picker
  value: the text wins when, trimmed, it is a hex color; else the picker's value when it is
  one as it stands.
\<close>

definition storedColorOk :: "jsstring \<Rightarrow> jsstring \<Rightarrow> jsstring \<Rightarrow> bool" where
  "storedColorOk textVal pickerVal stored \<longleftrightarrow>
     (isHexColor (trim textVal) \<longrightarrow>
        stored = toLowerCase (trim textVal) \<and> isLowerHex3or6 stored) \<and>
     (\<not> isHexColor (trim textVal) \<and> isHexColor pickerVal \<and> trim pickerVal = pickerVal \<longrightarrow>
        stored = toLowerCase pickerVal \<and> isLowerHex3or6 stored)"

lemma pickColor_ok: "storedColorOk t p (pickColor t p fb)"
  unfolding storedColorOk_def pickColor_def Let_def
  using isHexColor_lower [of "trim t"] isHexColor_lower [of p]
  by (auto simp: trim_idem)

lemma saveSettings_Saved:
  assumes "saveSettings f up src now ok st = (Saved c, st')"
  shows "myCard st' = Some c"
    and "cardColor c = Some (pickColor (cardColorInput f) (cardColorPicker f) (js ''#6366f1''))"
    and "bgColor c = Some (pickColor (bgColorInput f) (bgColorPicker f) (js ''#6B46C1''))"
  using assms unfolding saveSettings_def Let_def saveMyCard_def
  by (auto split: if_splits)

lemma saveSettings_example:
  "saveSettings exampleForm None (js ''https://example.com/p.png'')
     (js ''2024-01-01T00:00:00.000Z'') True emptyStorage
   = (Saved exampleCard, \<lparr> myCard = Some exampleCard, savedContacts = None \<rparr>)"
  by code_simp

text \<open>
  Claim C5, as stated, fails: the user types \<open>#ABC\<close> into the card color input, the
  save succeeds, and the stored \<open>cardColor\<close> is \<open>#abc\<close>, three hex digits and not six.
\<close>

theorem saveSettings_color_counterexample:
  "saveSettings exampleForm None (js ''https://example.com/p.png'')
     (js ''2024-01-01T00:00:00.000Z'') True emptyStorage
   = (Saved exampleCard, \<lparr> myCard = Some exampleCard, savedContacts = None \<rparr>) \<and>
   cardColor exampleCard = Some (js ''#abc'') \<and>
   \<not> isLowerHex6 (js ''#abc'')"
proof -
  have "cardColor exampleCard = Some (js ''#abc'')"
    by (simp add: exampleCard_def)
  moreover have "\<not> isLowerHex6 (js ''#abc'')"
    by code_simp
  ultimately show ?thesis
    using saveSettings_example by simp
qed

text \<open>
  Claim C5, amended. After a successful save the stored card is the one built from the
  form, and each of its two colors is what \<open>pickColor\<close> returns: when the text input,
  trimmed, is a hex color (\<open>#\<close> and three or six hex digits) the stored color is that text
  in lowercase; otherwise, when the picker's value is a hex color with no white space
  around it, the stored color is the picker's value in lowercase. In both cases it matches
  \<open>#([0-9a-f]{3}|[0-9a-f]{6})\<close>.
\<close>

theorem saveSettings_colors:
  assumes "saveSettings f up src now ok st = (Saved c, st')"
  shows "myCard st' = Some c \<and>
         (\<exists>cc bg. cardColor c = Some cc \<and> bgColor c = Some bg \<and>
            storedColorOk (cardColorInput f) (cardColorPicker f) cc \<and>
            storedColorOk (bgColorInput f) (bgColorPicker f) bg)"
  using saveSettings_Saved [OF assms] by (simp add: pickColor_ok)

theorem saveSettings_colors_witness:
  "saveSettings exampleForm None (js ''https://example.com/p.png'')
     (js ''2024-01-01T00:00:00.000Z'') True emptyStorage
   = (Saved exampleCard, \<lparr> myCard = Some exampleCard, savedContacts = None \<rparr>) \<and>
   isHexColor (trim (cardColorInput exampleForm)) \<and>
   \<not> isHexColor (trim (bgColorInput exampleForm)) \<and>
   isHexColor (bgColorPicker exampleForm) \<and>
   trim (bgColorPicker exampleForm) = bgColorPicker exampleForm \<and>
   cardColor exampleCard = Some (js ''#abc'') \<and> isLowerHex3or6 (js ''#abc'') \<and>
   bgColor exampleCard = Some (js ''#6b46c1'') \<and> isLowerHex3or6 (js ''#6b46c1'')"
proof -
  have h1: "isHexColor (trim (cardColorInput exampleForm))" by code_simp
  have h2: "\<not> isHexColor (trim (bgColorInput exampleForm))" by code_simp
  have h3: "isHexColor (bgColorPicker exampleForm)" by code_simp
  have h4: "trim (bgColorPicker exampleForm) = bgColorPicker exampleForm" by code_simp
  have c1: "cardColor exampleCard = Some (js ''#abc'')" by (simp add: exampleCard_def)
  have c2: "bgColor exampleCard = Some (js ''#6b46c1'')" by (simp add: exampleCard_def)
  from saveSettings_colors [OF saveSettings_example]
  have "storedColorOk (cardColorInput exampleForm) (cardColorPicker exampleForm) (js ''#abc'')"
    and "storedColorOk (bgColorInput exampleForm) (bgColorPicker exampleForm) (js ''#6b46c1'')"
    by (simp_all add: c1 c2)
  then have "isLowerHex3or6 (js ''#abc'')" and "isLowerHex3or6 (js ''#6b46c1'')"
    unfolding storedColorOk_def using h1 h2 h3 h4 by blast+
  then show ?thesis
    using saveSettings_example h1 h2 h3 h4 c1 c2 by simp
qed

section \<open>The pretty phone format\<close>

lemma js_simps: "js [] = []" "js (c # s) = of_char c # js s"
  by (simp_all add: js_def)

lemma space_facts: "\<not> isDigit 0x20" "\<not> isJsSpace 0x28" "isJsSpace 0x20"
  by (simp_all add: isDigit_def isJsSpace_def)

lemma digit_not_space: "isDigit c \<Longrightarrow> \<not> isJsSpace c"
  by (auto simp: isDigit_def isJsSpace_def word_le_nat_alt)

lemma length_ten: "length l = 10 \<Longrightarrow> \<exists>a b c d e f g h i j. l = [a, b, c, d, e, f, g, h, i, j]"
  by (auto simp: length_Suc_conv eval_nat_numeral)

lemma matchLocal_pretty:
  assumes "list_all isDigit [a, b, c, d, e, f, g, h, i, j]"
  shows "matchLocal (0x20 # 0x28 # a # b # c # 0x29 # 0x20 # d # e # f # 0x2D # [g, h, i, j])
         = Some ([a, b, c], [d, e, f], [g, h, i, j])"
  using assms by (simp add: matchLocal_def space_facts digit_not_space)

text \<open>
  Claim C9. For a country code of one to three digits and a local number of exactly ten
  digits, \<open>parsePrettyPhone10\<close> succeeds on the pretty form that \<open>formatPhone\<close> builds,
  and returns that country code and that local number.
\<close>

theorem parsePrettyPhone10_formatPhone:
  assumes cc: "1 \<le> length country" "length country \<le> 3" "list_all isDigit country"
      and lo: "length loc = 10" "list_all isDigit loc"
  shows "\<exists>r. parsePrettyPhone10 (pretty (formatPhone country loc)) = Some r \<and>
             cc r = country \<and> local r = loc"
proof -
  from length_ten [OF lo(1)] obtain a b c d e f g h i j
    where l: "loc = [a, b, c, d, e, f, g, h, i, j]"
    by (elim exE)
  have ml: "matchLocal (0x20 # 0x28 # a # b # c # 0x29 # 0x20 # d # e # f # 0x2D # [g, h, i, j])
            = Some ([a, b, c], [d, e, f], [g, h, i, j])"
    using lo(2) unfolding l by (rule matchLocal_pretty)
  from cc(1,2) consider u where "country = [u]" | u v where "country = [u, v]"
    | u v w where "country = [u, v, w]"
    by (cases country; simp; case_tac list; simp; case_tac lista; simp)
  then show ?thesis
  proof cases
    case 1
    then show ?thesis using cc(3) ml
      by (simp add: parsePrettyPhone10_def matchPretty_def matchFrom_def formatPhone_def l
            js_simps slice_def sliceFrom_def space_facts)
  next
    case 2
    then show ?thesis using cc(3) ml
      by (simp add: parsePrettyPhone10_def matchPretty_def matchFrom_def formatPhone_def l
            js_simps slice_def sliceFrom_def space_facts)
  next
    case 3
    then show ?thesis using cc(3) ml
      by (simp add: parsePrettyPhone10_def matchPretty_def matchFrom_def formatPhone_def l
            js_simps slice_def sliceFrom_def space_facts)
  qed
qed

theorem parsePrettyPhone10_formatPhone_witness:
  "1 \<le> length (js ''44'') \<and> length (js ''44'') \<le> 3 \<and> list_all isDigit (js ''44'') \<and>
   length (js ''5551234567'') = 10 \<and> list_all isDigit (js ''5551234567'') \<and>
   pretty (formatPhone (js ''44'') (js ''5551234567'')) = js ''+44 (555) 123-4567'' \<and>
   map_option cc (parsePrettyPhone10 (js ''+44 (555) 123-4567'')) = Some (js ''44'') \<and>
   map_option local (parsePrettyPhone10 (js ''+44 (555) 123-4567'')) = Some (js ''5551234567'')"
proof -
  have h: "1 \<le> length (js ''44'')" "length (js ''44'') \<le> 3" "list_all isDigit (js ''44'')"
    "length (js ''5551234567'') = 10" "list_all isDigit (js ''5551234567'')"
    by (simp_all add: js_def isDigit_def)
  have p: "pretty (formatPhone (js ''44'') (js ''5551234567'')) = js ''+44 (555) 123-4567''"
    by (simp add: formatPhone_def js_def slice_def sliceFrom_def)
  from parsePrettyPhone10_formatPhone [OF h] obtain r
    where "parsePrettyPhone10 (pretty (formatPhone (js ''44'') (js ''5551234567''))) = Some r"
      and "cc r = js ''44''" and "local r = js ''5551234567''"
    by blast
  then show ?thesis using h p by simp
qed

section \<open>Contacts\<close>

lemma addContact_exists:
  "list_ex (\<lambda>c. sameTriple c contact) (getSavedContacts st) \<Longrightarrow>
   addContact now ok contact st = (False, st)"
  by (simp add: addContact_def)

lemma addContact_added:
  assumes "addContact now ok contact st = (True, st')"
  shows "getSavedContacts st' = getSavedContacts st @ [contact\<lparr>savedAt := Some now\<rparr>]"
  using assms
  by (auto simp: addContact_def Let_def saveSavedContacts_def getSavedContacts_def
        split: if_splits)

text \<open>
  Claim C8. When a stored contact has the first name, last name and e-mail address of the
  contact to add, \<open>addContact\<close> returns \<open>false\<close> and the storage is as it was. So after
  an add that succeeded, adding a contact with the same triple again returns \<open>false\<close> and
  leaves the list, and its length, unchanged.
\<close>

theorem addContact_duplicate:
  "((\<exists>c \<in> set (getSavedContacts st). sameTriple c contact) \<longrightarrow>
      addContact now ok contact st = (False, st)) \<and>
   (addContact now ok contact st = (True, st') \<and> sameTriple contact contact' \<longrightarrow>
      addContact now' ok' contact' st' = (False, st') \<and>
      length (getSavedContacts (snd (addContact now' ok' contact' st')))
        = length (getSavedContacts st'))"
proof (intro conjI impI)
  assume "\<exists>c \<in> set (getSavedContacts st). sameTriple c contact"
  then show "addContact now ok contact st = (False, st)"
    by (simp add: addContact_exists list_ex_iff)
next
  assume a: "addContact now ok contact st = (True, st') \<and> sameTriple contact contact'"
  then have "sameTriple (contact\<lparr>savedAt := Some now\<rparr>) contact'"
    by (simp add: sameTriple_def)
  then have "list_ex (\<lambda>c. sameTriple c contact') (getSavedContacts st')"
    using addContact_added [of now ok contact st st'] a by (simp add: list_ex_iff)
  then show r: "addContact now' ok' contact' st' = (False, st')"
    by (rule addContact_exists)
  show "length (getSavedContacts (snd (addContact now' ok' contact' st')))
        = length (getSavedContacts st')"
    by (simp add: r)
qed

lemma exampleContact_fields:
  "c_firstName (exampleContact n) = Some (js n)"
  "c_lastName (exampleContact n) = Some (js ''Doe'')"
  "c_email (exampleContact n) = Some (js ''doe@example.com'')"
  by (simp_all add: exampleContact_def)

lemma threeContacts_list:
  "getSavedContacts threeContacts
   = [exampleContact ''Ann'', exampleContact ''Bob'', exampleContact ''Cy'']"
  by (simp add: getSavedContacts_def threeContacts_def)

theorem addContact_duplicate_witness:
  "exampleContact ''Bob'' \<in> set (getSavedContacts threeContacts) \<and>
   sameTriple (exampleContact ''Bob'') (exampleContact ''Bob'') \<and>
   addContact (js ''t1'') True (exampleContact ''Bob'') threeContacts = (False, threeContacts) \<and>
   addContact (js ''t0'') True (exampleContact ''Bob'') emptyStorage
     = (True, \<lparr> myCard = None,
               savedContacts = Some [(exampleContact ''Bob'')\<lparr>savedAt := Some (js ''t0'')\<rparr>] \<rparr>) \<and>
   addContact (js ''t1'') True (exampleContact ''Bob'')
       \<lparr> myCard = None,
         savedContacts = Some [(exampleContact ''Bob'')\<lparr>savedAt := Some (js ''t0'')\<rparr>] \<rparr>
     = (False, \<lparr> myCard = None,
                savedContacts = Some [(exampleContact ''Bob'')\<lparr>savedAt := Some (js ''t0'')\<rparr>] \<rparr>)"
proof -
  have m: "exampleContact ''Bob'' \<in> set (getSavedContacts threeContacts)"
    by (simp add: threeContacts_list)
  have t: "sameTriple (exampleContact ''Bob'') (exampleContact ''Bob'')"
    by (simp add: sameTriple_def)
  have first: "addContact (js ''t0'') True (exampleContact ''Bob'') emptyStorage
     = (True, \<lparr> myCard = None,
               savedContacts = Some [(exampleContact ''Bob'')\<lparr>savedAt := Some (js ''t0'')\<rparr>] \<rparr>)"
    by (simp add: addContact_def getSavedContacts_def emptyStorage_def saveSavedContacts_def)
  have "\<exists>c \<in> set (getSavedContacts threeContacts). sameTriple c (exampleContact ''Bob'')"
    using m t by blast
  then have dup: "addContact (js ''t1'') True (exampleContact ''Bob'') threeContacts
                  = (False, threeContacts)"
    using addContact_duplicate [of threeContacts "exampleContact ''Bob''" "js ''t1''" True]
    by blast
  have again: "addContact (js ''t1'') True (exampleContact ''Bob'')
       \<lparr> myCard = None,
         savedContacts = Some [(exampleContact ''Bob'')\<lparr>savedAt := Some (js ''t0'')\<rparr>] \<rparr>
     = (False, \<lparr> myCard = None,
                savedContacts = Some [(exampleContact ''Bob'')\<lparr>savedAt := Some (js ''t0'')\<rparr>] \<rparr>)"
    using addContact_duplicate [of emptyStorage "exampleContact ''Bob''" "js ''t0''" True
        "\<lparr> myCard = None,
           savedContacts = Some [(exampleContact ''Bob'')\<lparr>savedAt := Some (js ''t0'')\<rparr>] \<rparr>"
        "exampleContact ''Bob''" "js ''t1''" True] first t
    by blast
  show ?thesis using m t dup first again by blast
qed

text \<open>
  Claim C10. \<open>removeContact\<close> with an index below zero or not below the length of the
  stored list returns \<open>false\<close> and leaves the storage as it was. With an index within the
  list (and the write to the storage succeeding) it returns \<open>true\<close>, and the stored list
  is the old one without the element at that index: one shorter, the elements before the
  index in place and the ones after it moved down by one.
\<close>

theorem removeContact_index:
  "((index < 0 \<or> index \<ge> int (length (getSavedContacts st))) \<longrightarrow>
      removeContact ok index st = (False, st)) \<and>
   (0 \<le> index \<and> index < int (length (getSavedContacts st)) \<and> ok \<longrightarrow>
      fst (removeContact ok index st) \<and>
      getSavedContacts (snd (removeContact ok index st))
        = take (nat index) (getSavedContacts st) @ drop (nat index + 1) (getSavedContacts st) \<and>
      length (getSavedContacts (snd (removeContact ok index st)))
        = length (getSavedContacts st) - 1 \<and>
      (\<forall>j < nat index. getSavedContacts (snd (removeContact ok index st)) ! j
                         = getSavedContacts st ! j) \<and>
      (\<forall>j. nat index \<le> j \<and> j < length (getSavedContacts st) - 1 \<longrightarrow>
            getSavedContacts (snd (removeContact ok index st)) ! j
              = getSavedContacts st ! (j + 1)) \<and>
      myCard (snd (removeContact ok index st)) = myCard st)"
proof (intro conjI impI)
  assume "index < 0 \<or> index \<ge> int (length (getSavedContacts st))"
  then show "removeContact ok index st = (False, st)"
    by (auto simp: removeContact_def Let_def)
next
  assume a: "0 \<le> index \<and> index < int (length (getSavedContacts st)) \<and> ok"
  define cs where "cs = getSavedContacts st"
  define i where "i = nat index"
  have i: "i < length cs" using a unfolding i_def cs_def by linarith
  have r: "removeContact ok index st = (True, st\<lparr>savedContacts := Some (take i cs @ drop (Suc i) cs)\<rparr>)"
    using a by (auto simp: removeContact_def Let_def saveSavedContacts_def splice1_def i_def cs_def)
  have g: "getSavedContacts (snd (removeContact ok index st)) = take i cs @ drop (Suc i) cs"
    by (simp add: r getSavedContacts_def)
  show "fst (removeContact ok index st)" by (simp add: r)
  show "getSavedContacts (snd (removeContact ok index st))
        = take (nat index) (getSavedContacts st) @ drop (nat index + 1) (getSavedContacts st)"
    using g by (simp add: i_def cs_def)
  show "length (getSavedContacts (snd (removeContact ok index st)))
        = length (getSavedContacts st) - 1"
    using i by (simp add: g cs_def [symmetric])
  show "\<forall>j < nat index. getSavedContacts (snd (removeContact ok index st)) ! j
                         = getSavedContacts st ! j"
    using i by (simp add: g cs_def [symmetric] i_def [symmetric] nth_append)
  show "\<forall>j. nat index \<le> j \<and> j < length (getSavedContacts st) - 1 \<longrightarrow>
            getSavedContacts (snd (removeContact ok index st)) ! j
              = getSavedContacts st ! (j + 1)"
    using i by (auto simp: g cs_def [symmetric] i_def [symmetric] nth_append min_def)
  show "myCard (snd (removeContact ok index st)) = myCard st"
    by (simp add: r)
qed

theorem removeContact_index_witness:
  "removeContact True (-1) threeContacts = (False, threeContacts) \<and>
   removeContact True 3 threeContacts = (False, threeContacts) \<and>
   (0::int) \<le> 1 \<and> (1::int) < int (length (getSavedContacts threeContacts)) \<and>
   fst (removeContact True 1 threeContacts) \<and>
   getSavedContacts (snd (removeContact True 1 threeContacts))
     = [exampleContact ''Ann'', exampleContact ''Cy'']"
proof -
  have l: "length (getSavedContacts threeContacts) = 3"
    by (simp add: threeContacts_list)
  have "removeContact True (-1) threeContacts = (False, threeContacts)"
    using removeContact_index [of "-1" threeContacts True] by simp
  moreover have "removeContact True 3 threeContacts = (False, threeContacts)"
    using removeContact_index [of 3 threeContacts True] l by simp
  moreover have "fst (removeContact True 1 threeContacts) \<and>
      getSavedContacts (snd (removeContact True 1 threeContacts))
        = [exampleContact ''Ann'', exampleContact ''Cy'']"
    using removeContact_index [of 1 threeContacts True] l by (simp add: threeContacts_list)
  ultimately show ?thesis using l by simp
qed

section \<open>Dragging and zooming the crop image\<close>

text \<open>
  Claim C7, as stated, fails: with a drag in progress, a mouse-down at \<open>(10, 10)\<close> moves
  the drag anchor from \<open>(5, 5)\<close> to \<open>(10, 10)\<close>; the handler has no test of \<open>isDragging\<close>.
\<close>

theorem beginDrag_counterexample:
  "isDragging draggingState \<and>
   dragStart (onmousedown (10, 10) draggingState) = (10, 10) \<and>
   dragStart draggingState = (5, 5) \<and>
   dragStart (onmousedown (10, 10) draggingState) \<noteq> dragStart draggingState \<and>
   dragStart (touchstart (10, 10) draggingState) \<noteq> dragStart draggingState"
  by (simp add: draggingState_def onmousedown_def touchstart_def)

text \<open>
  Claim C7, amended. With a drag in progress, a mouse-down or a touch-start on the crop
  container leaves the position, the scale and the image of the crop state unchanged and
  the drag in progress, and records the drag anchor anew, as the pointer's position less
  the current position of the image.
\<close>

theorem beginDrag_while_dragging:
  assumes "isDragging st"
  shows "position (onmousedown e st) = position st \<and>
         scale (onmousedown e st) = scale st \<and>
         originalImage (onmousedown e st) = originalImage st \<and>
         isDragging (onmousedown e st) \<and>
         dragStart (onmousedown e st) = (fst e - fst (position st), snd e - snd (position st)) \<and>
         touchstart e st = onmousedown e st"
  by (simp add: onmousedown_def touchstart_def)

theorem beginDrag_while_dragging_witness:
  "isDragging draggingState \<and>
   position (onmousedown (10, 10) draggingState) = (0, 0) \<and>
   scale (onmousedown (10, 10) draggingState) = 1 \<and>
   isDragging (onmousedown (10, 10) draggingState) \<and>
   dragStart (onmousedown (10, 10) draggingState) = (10, 10) \<and>
   touchstart (10, 10) draggingState = onmousedown (10, 10) draggingState"
proof -
  have d: "isDragging draggingState" by (simp add: draggingState_def)
  show ?thesis
    using beginDrag_while_dragging [OF d, of "(10, 10)"] d
    by (simp add: draggingState_def)
qed

text \<open>
  Claim C6. When the zoom slider changes the scale (the old scale not zero), the new
  scale is the slider's value over 100, and on each axis the new offset is
  \<open>center - (center - old offset) * (new scale / old scale)\<close>, the center being half the
  container's client width or height. So the point of the image that lies under the
  center of the viewport is the same before and after, when the new scale is not zero.
\<close>

theorem zoom_keeps_center:
  assumes "scale st \<noteq> 0"
  shows "\<exists>st'. zoomInput v w h st = Some st' \<and>
           scale st' = v / 100 \<and>
           fst (position st') = w / 2 - (w / 2 - fst (position st)) * ((v / 100) / scale st) \<and>
           snd (position st') = h / 2 - (h / 2 - snd (position st)) * ((v / 100) / scale st) \<and>
           isDragging st' = isDragging st \<and> dragStart st' = dragStart st \<and>
           (v \<noteq> 0 \<longrightarrow>
              (w / 2 - fst (position st')) / scale st' = (w / 2 - fst (position st)) / scale st \<and>
              (h / 2 - snd (position st')) / scale st' = (h / 2 - snd (position st)) / scale st)"
  using assms by (simp add: zoomInput_def Let_def)

theorem zoom_keeps_center_witness:
  "scale draggingState \<noteq> 0 \<and>
   map_option scale (zoomInput 200 300 300 draggingState) = Some 2 \<and>
   map_option position (zoomInput 200 300 300 draggingState) = Some (-150, -150) \<and>
   (150 - (-150)) / (2::real) = (150 - 0) / 1"
proof -
  have s: "scale draggingState \<noteq> 0" by (simp add: draggingState_def)
  from zoom_keeps_center [OF s, of 200 300 300] obtain st'
    where z: "zoomInput 200 300 300 draggingState = Some st'"
      and "scale st' = 200 / 100"
      and "fst (position st') = 300 / 2 - (300 / 2 - fst (position draggingState)) * ((200 / 100) / scale draggingState)"
      and "snd (position st') = 300 / 2 - (300 / 2 - snd (position draggingState)) * ((200 / 100) / scale draggingState)"
    by blast
  then have "scale st' = 2" and "position st' = (-150, -150)"
    by (simp_all add: draggingState_def prod_eq_iff)
  then show ?thesis using s z by simp
qed

section \<open>JavaScript values and JSON\<close>

text \<open>
  The values a card is made of: strings, booleans, \<open>null\<close>, \<open>undefined\<close> and objects,
  an object being the list of its properties in the order of their creation. Numbers and
  arrays do not occur in a card and are not modelled.
\<close>

datatype jsval =
    JUndefined
  | JNull
  | JBool bool
  | JStr jsstring
  | JObj "(jsstring \<times> jsval) list"

datatype jserror = URIError | InvalidCharacterError | SyntaxError | Unmodelled

text \<open>Reading a property: \<open>undefined\<close> when the object has none of that name.\<close>

fun lookupProp :: "(jsstring \<times> jsval) list \<Rightarrow> jsstring \<Rightarrow> jsval" where
  "lookupProp [] k = JUndefined"
| "lookupProp ((k', v) # ps) k = (if k' = k then v else lookupProp ps k)"

definition getProp :: "jsval \<Rightarrow> jsstring \<Rightarrow> jsval" where
  "getProp v k = (case v of JObj ps \<Rightarrow> lookupProp ps k | _ \<Rightarrow> JUndefined)"

text \<open>
  Setting a property: an existing one keeps its place and takes the new value, a new one
  goes last.
\<close>

fun setProp :: "(jsstring \<times> jsval) list \<Rightarrow> jsstring \<Rightarrow> jsval \<Rightarrow> (jsstring \<times> jsval) list" where
  "setProp [] k v = [(k, v)]"
| "setProp ((k', v') # ps) k v = (if k' = k then (k, v) # ps else (k', v') # setProp ps k v)"

definition isHighSurrogate :: "jschar \<Rightarrow> bool" where
  "isHighSurrogate c \<longleftrightarrow> 0xD800 \<le> c \<and> c \<le> 0xDBFF"

definition isLowSurrogate :: "jschar \<Rightarrow> bool" where
  "isLowSurrogate c \<longleftrightarrow> 0xDC00 \<le> c \<and> c \<le> 0xDFFF"

definition hexLower :: "nat \<Rightarrow> jschar" where
  "hexLower d = (if d < 10 then of_nat (48 + d) else of_nat (87 + d))"

definition hexUpper :: "nat \<Rightarrow> jschar" where
  "hexUpper d = (if d < 10 then of_nat (48 + d) else of_nat (55 + d))"

definition hexDigitValue :: "jschar \<Rightarrow> nat" where
  "hexDigitValue c =
     (if isDigit c then unat c - 48
      else if 0x61 \<le> c \<and> c \<le> 0x66 then unat c - 87
      else unat c - 55)"

definition hexValue :: "jsstring \<Rightarrow> nat" where
  "hexValue ds = foldl (\<lambda>a d. 16 * a + hexDigitValue d) 0 ds"

text \<open>The escape \<open>\uXXXX\<close> of a code unit, with lowercase hex digits.\<close>

definition unicodeEscape :: "jschar \<Rightarrow> jsstring" where
  "unicodeEscape c =
     [0x5C, 0x75, hexLower (unat c div 4096), hexLower (unat c div 256 mod 16),
      hexLower (unat c div 16 mod 16), hexLower (unat c mod 16)]"

text \<open>
  \<open>QuoteJSONString\<close> of \<open>JSON.stringify\<close>: the two-character escapes, \<open>\uXXXX\<close> for the
  other control characters and for a surrogate that has no partner, and every other
  code unit as it is.
\<close>

fun quoteChars :: "jsstring \<Rightarrow> jsstring" where
  "quoteChars [] = []"
| "quoteChars (c # cs) =
     (if c = 0x08 then [0x5C, 0x62] @ quoteChars cs
      else if c = 0x09 then [0x5C, 0x74] @ quoteChars cs
      else if c = 0x0A then [0x5C, 0x6E] @ quoteChars cs
      else if c = 0x0C then [0x5C, 0x66] @ quoteChars cs
      else if c = 0x0D then [0x5C, 0x72] @ quoteChars cs
      else if c = 0x22 then [0x5C, 0x22] @ quoteChars cs
      else if c = 0x5C then [0x5C, 0x5C] @ quoteChars cs
      else if c < 0x20 then unicodeEscape c @ quoteChars cs
      else if isHighSurrogate c then
        (case cs of
           [] \<Rightarrow> unicodeEscape c
         | d # ds \<Rightarrow> if isLowSurrogate d then c # d # quoteChars ds
                    else unicodeEscape c @ quoteChars cs)
      else if isLowSurrogate c then unicodeEscape c @ quoteChars cs
      else c # quoteChars cs)"

definition quoteJSONString :: "jsstring \<Rightarrow> jsstring" where
  "quoteJSONString s = 0x22 # quoteChars s @ [0x22]"

text \<open>
  \<open>JSON.stringify(value)\<close> with no replacer and no indentation: \<open>None\<close> stands for the
  result \<open>undefined\<close>, and a property whose value is \<open>undefined\<close> is left out.
\<close>

fun JSON_stringify :: "jsval \<Rightarrow> jsstring option"
  and stringifyProps :: "(jsstring \<times> jsval) list \<Rightarrow> jsstring list" where
  "JSON_stringify JUndefined = None"
| "JSON_stringify JNull = Some (js ''null'')"
| "JSON_stringify (JBool b) = Some (if b then js ''true'' else js ''false'')"
| "JSON_stringify (JStr s) = Some (quoteJSONString s)"
| "JSON_stringify (JObj ps) = Some (0x7B # js_join 0x2C (stringifyProps ps) @ [0x7D])"
| "stringifyProps [] = []"
| "stringifyProps ((k, v) # ps) =
     (case JSON_stringify v of
        None \<Rightarrow> stringifyProps ps
      | Some t \<Rightarrow> (quoteJSONString k @ 0x3A # t) # stringifyProps ps)"

section \<open>utils.js: the token of a card\<close>

text \<open>A string put before the result of the rest of a conversion that may throw.\<close>

definition prepend :: "jsstring \<Rightarrow> jserror + jsstring \<Rightarrow> jserror + jsstring" where
  "prepend p r = (case r of Inl e \<Rightarrow> Inl e | Inr s \<Rightarrow> Inr (p @ s))"

text \<open>The UTF-8 octets of a code point, and a code point as UTF-16 code units.\<close>

definition utf8Octets :: "nat \<Rightarrow> nat list" where
  "utf8Octets cp =
     (if cp < 0x80 then [cp]
      else if cp < 0x800 then [0xC0 + cp div 64, 0x80 + cp mod 64]
      else if cp < 0x10000 then [0xE0 + cp div 4096, 0x80 + cp div 64 mod 64, 0x80 + cp mod 64]
      else [0xF0 + cp div 262144, 0x80 + cp div 4096 mod 64, 0x80 + cp div 64 mod 64,
            0x80 + cp mod 64])"

definition utf16Units :: "nat \<Rightarrow> jsstring" where
  "utf16Units cp =
     (if cp < 0x10000 then [of_nat cp]
      else [of_nat (0xD800 + (cp - 0x10000) div 0x400), of_nat (0xDC00 + (cp - 0x10000) mod 0x400)])"

definition percentEncode :: "nat \<Rightarrow> jsstring" where
  "percentEncode b = [0x25, hexUpper (b div 16), hexUpper (b mod 16)]"

definition percentEncodeAll :: "nat list \<Rightarrow> jsstring" where
  "percentEncodeAll bs = concat (map percentEncode bs)"

text \<open>The characters \<open>encodeURIComponent\<close> leaves as they are: \<open>A-Z a-z 0-9 - _ . ! ~ * ' ( )\<close>.\<close>

definition isUnreserved :: "jschar \<Rightarrow> bool" where
  "isUnreserved c \<longleftrightarrow>
     isLetter c \<or> isDigit c \<or>
     c = 0x2D \<or> c = 0x5F \<or> c = 0x2E \<or> c = 0x21 \<or> c = 0x7E \<or> c = 0x2A \<or> c = 0x27 \<or>
     c = 0x28 \<or> c = 0x29"

text \<open>
  \<open>encodeURIComponent\<close>: every other code point as the percent-encoded octets of its
  UTF-8 form; a surrogate with no partner throws a URIError.
\<close>

fun encodeURIComponent :: "jsstring \<Rightarrow> jserror + jsstring" where
  "encodeURIComponent [] = Inr []"
| "encodeURIComponent (c # cs) =
     (if isUnreserved c then prepend [c] (encodeURIComponent cs)
      else if isLowSurrogate c then Inl URIError
      else if isHighSurrogate c then
        (case cs of
           [] \<Rightarrow> Inl URIError
         | d # ds \<Rightarrow>
             if isLowSurrogate d
             then prepend
                    (percentEncodeAll
                       (utf8Octets (0x10000 + (unat c - 0xD800) * 0x400 + (unat d - 0xDC00))))
                    (encodeURIComponent ds)
             else Inl URIError)
      else prepend (percentEncodeAll (utf8Octets (unat c))) (encodeURIComponent cs))"

text \<open>
  \<open>unescape\<close>: \<open>%uXXXX\<close> and \<open>%XX\<close> become the code unit with that number, everything
  else stays.
\<close>

fun unescape :: "jsstring \<Rightarrow> jsstring" where
  "unescape [] = []"
| "unescape (c # cs) =
     (if c = 0x25 \<and> length cs \<ge> 5 \<and> take 1 cs = [0x75] \<and> list_all isHexDigit (take 4 (drop 1 cs))
        then of_nat (hexValue (take 4 (drop 1 cs))) # unescape (drop 5 cs)
      else if c = 0x25 \<and> length cs \<ge> 2 \<and> list_all isHexDigit (take 2 cs)
        then of_nat (hexValue (take 2 cs)) # unescape (drop 2 cs)
      else c # unescape cs)"

text \<open>The base64 alphabet.\<close>

definition b64Char :: "nat \<Rightarrow> jschar" where
  "b64Char i =
     (if i < 26 then of_nat (65 + i)
      else if i < 52 then of_nat (71 + i)
      else if i < 62 then of_nat (i - 4)
      else if i = 62 then 0x2B
      else 0x2F)"

definition b64Index :: "jschar \<Rightarrow> nat option" where
  "b64Index c =
     (if isUpper c then Some (unat c - 65)
      else if isLower c then Some (unat c - 71)
      else if isDigit c then Some (unat c + 4)
      else if c = 0x2B then Some 62
      else if c = 0x2F then Some 63
      else None)"

fun base64Encode :: "nat list \<Rightarrow> jsstring" where
  "base64Encode [] = []"
| "base64Encode [a] = [b64Char (a div 4), b64Char (a mod 4 * 16), 0x3D, 0x3D]"
| "base64Encode [a, b] =
     [b64Char (a div 4), b64Char (a mod 4 * 16 + b div 16), b64Char (b mod 16 * 4), 0x3D]"
| "base64Encode (a # b # c # r) =
     [b64Char (a div 4), b64Char (a mod 4 * 16 + b div 16), b64Char (b mod 16 * 4 + c div 64),
      b64Char (c mod 64)] @ base64Encode r"

text \<open>\<open>btoa\<close> throws when a code unit is above \<open>0xFF\<close>.\<close>

definition btoa :: "jsstring \<Rightarrow> jserror + jsstring" where
  "btoa s =
     (if list_ex (\<lambda>c. c > 0xFF) s then Inl InvalidCharacterError
      else Inr (base64Encode (map unat s)))"

definition encodeObj :: "jsval \<Rightarrow> jserror + jsstring" where
  "encodeObj obj =
     (case encodeURIComponent
             (case JSON_stringify obj of None \<Rightarrow> js ''undefined'' | Some t \<Rightarrow> t) of
        Inl e \<Rightarrow> Inl e
      | Inr u \<Rightarrow> btoa (unescape u))"

text \<open>
  \<open>atob\<close>: ASCII white space is dropped, then one or two closing \<open>=\<close> of a text whose
  length is a multiple of four; a remaining length of one more than a multiple of four or a
  character outside the alphabet throws. Each character gives six bits, and the bits left
  over at the end are dropped.
\<close>

definition isAsciiWhitespace :: "jschar \<Rightarrow> bool" where
  "isAsciiWhitespace c \<longleftrightarrow> c = 0x09 \<or> c = 0x0A \<or> c = 0x0C \<or> c = 0x0D \<or> c = 0x20"

definition stripPadding :: "jsstring \<Rightarrow> jsstring" where
  "stripPadding d =
     (if length d mod 4 \<noteq> 0 then d
      else if length d \<ge> 2 \<and> drop (length d - 2) d = [0x3D, 0x3D] then take (length d - 2) d
      else if length d \<ge> 1 \<and> drop (length d - 1) d = [0x3D] then take (length d - 1) d
      else d)"

fun base64Decode :: "nat list \<Rightarrow> nat list" where
  "base64Decode (w # x # y # z # r) =
     [w * 4 + x div 16, x mod 16 * 16 + y div 4, y mod 4 * 64 + z] @ base64Decode r"
| "base64Decode [w, x, y] = [w * 4 + x div 16, x mod 16 * 16 + y div 4]"
| "base64Decode [w, x] = [w * 4 + x div 16]"
| "base64Decode [w] = []"
| "base64Decode [] = []"

definition atob :: "jsstring \<Rightarrow> jserror + jsstring" where
  "atob s =
     (let d = stripPadding (filter (\<lambda>c. \<not> isAsciiWhitespace c) s) in
      if length d mod 4 = 1 then Inl InvalidCharacterError
      else (case those (map b64Index d) of
              None \<Rightarrow> Inl InvalidCharacterError
            | Some ixs \<Rightarrow> Inr (map of_nat (base64Decode ixs))))"

text \<open>
  \<open>escape\<close>: the characters \<open>A-Z a-z 0-9 @ * _ + - . /\<close> stay, every other code unit
  becomes \<open>%XX\<close>, or \<open>%uXXXX\<close> from \<open>0x100\<close> on.
\<close>

definition isEscapeSafe :: "jschar \<Rightarrow> bool" where
  "isEscapeSafe c \<longleftrightarrow>
     isLetter c \<or> isDigit c \<or>
     c = 0x40 \<or> c = 0x2A \<or> c = 0x5F \<or> c = 0x2B \<or> c = 0x2D \<or> c = 0x2E \<or> c = 0x2F"

definition escapeUnit :: "jschar \<Rightarrow> jsstring" where
  "escapeUnit c =
     (if isEscapeSafe c then [c]
      else if unat c < 256 then percentEncode (unat c)
      else [0x25, 0x75, hexUpper (unat c div 4096), hexUpper (unat c div 256 mod 16),
            hexUpper (unat c div 16 mod 16), hexUpper (unat c mod 16)])"

definition escape :: "jsstring \<Rightarrow> jsstring" where
  "escape s = concat (map escapeUnit s)"

text \<open>
  \<open>decodeURIComponent\<close>: a character other than \<open>%\<close> stays; \<open>%XX\<close> below \<open>0x80\<close> is
  that character; a first octet from \<open>0xC0\<close> to \<open>0xF7\<close> announces one, two or three more
  \<open>%XX\<close> with octets from \<open>0x80\<close> to \<open>0xBF\<close>, and the octets must be the UTF-8 form of a
  code point. Everything else throws a URIError.
\<close>

fun readOctets :: "nat \<Rightarrow> jsstring \<Rightarrow> nat list option" where
  "readOctets 0 s = Some []"
| "readOctets (Suc k) s =
     (if length s \<ge> 3 \<and> take 1 s = [0x25] \<and> list_all isHexDigit (take 2 (drop 1 s)) \<and>
         0x80 \<le> hexValue (take 2 (drop 1 s)) \<and> hexValue (take 2 (drop 1 s)) < 0xC0
      then map_option ((#) (hexValue (take 2 (drop 1 s)))) (readOctets k (drop 3 s))
      else None)"

definition utf8CodePoint :: "nat list \<Rightarrow> nat option" where
  "utf8CodePoint octets =
     (case octets of
        [b0, b1] \<Rightarrow>
          (let cp = (b0 - 0xC0) * 64 + (b1 - 0x80) in
           if 0x80 \<le> cp then Some cp else None)
      | [b0, b1, b2] \<Rightarrow>
          (let cp = (b0 - 0xE0) * 4096 + (b1 - 0x80) * 64 + (b2 - 0x80) in
           if 0x800 \<le> cp \<and> \<not> (0xD800 \<le> cp \<and> cp \<le> 0xDFFF) then Some cp else None)
      | [b0, b1, b2, b3] \<Rightarrow>
          (let cp = (b0 - 0xF0) * 262144 + (b1 - 0x80) * 4096 + (b2 - 0x80) * 64 + (b3 - 0x80) in
           if 0x10000 \<le> cp \<and> cp \<le> 0x10FFFF then Some cp else None)
      | _ \<Rightarrow> None)"

fun decodeURIComponent :: "jsstring \<Rightarrow> jserror + jsstring" where
  "decodeURIComponent [] = Inr []"
| "decodeURIComponent (c # cs) =
     (if c \<noteq> 0x25 then prepend [c] (decodeURIComponent cs)
      else if length cs < 2 \<or> \<not> list_all isHexDigit (take 2 cs) then Inl URIError
      else
        let b = hexValue (take 2 cs) in
        if b < 0x80 then prepend [of_nat b] (decodeURIComponent (drop 2 cs))
        else if b < 0xC0 \<or> 0xF8 \<le> b then Inl URIError
        else
          let n = (if b < 0xE0 then 2 else if b < 0xF0 then 3 else 4) in
          (case readOctets (n - 1) (drop 2 cs) of
             None \<Rightarrow> Inl URIError
           | Some octets \<Rightarrow>
               (case utf8CodePoint (b # octets) of
                  None \<Rightarrow> Inl URIError
                | Some cp \<Rightarrow>
                    prepend (utf16Units cp)
                      (decodeURIComponent (drop (3 * (n - 1)) (drop 2 cs))))))"

text \<open>
  \<open>JSON.parse\<close> with no reviver, as the JSON grammar has it: the text is a sequence of
  tokens with white space between them. A text with a number or an array is outside the
  model (\<open>Unmodelled\<close>: nothing is said of what \<open>JSON.parse\<close> returns for it).
\<close>

datatype token = TLBrace | TRBrace | TColon | TComma | TString jsstring | TTrue | TFalse | TNull

definition isJsonSpace :: "jschar \<Rightarrow> bool" where
  "isJsonSpace c \<longleftrightarrow> c = 0x09 \<or> c = 0x0A \<or> c = 0x0D \<or> c = 0x20"

definition pushChar :: "jschar \<Rightarrow> (jsstring \<times> jsstring) option \<Rightarrow> (jsstring \<times> jsstring) option" where
  "pushChar c r = map_option (\<lambda>(s, rest). (c # s, rest)) r"

text \<open>The character that a two-character escape of a JSON string stands for.\<close>

definition escapeChar :: "jschar \<Rightarrow> jschar option" where
  "escapeChar e =
     (if e = 0x22 then Some 0x22
      else if e = 0x5C then Some 0x5C
      else if e = 0x2F then Some 0x2F
      else if e = 0x62 then Some 0x08
      else if e = 0x66 then Some 0x0C
      else if e = 0x6E then Some 0x0A
      else if e = 0x72 then Some 0x0D
      else if e = 0x74 then Some 0x09
      else None)"

text \<open>
  The characters of a string literal after its opening quote: the string they denote and
  the text after the closing quote.
\<close>

fun lexString :: "jsstring \<Rightarrow> (jsstring \<times> jsstring) option" where
  "lexString [] = None"
| "lexString (c # cs) =
     (if c = 0x22 then Some ([], cs)
      else if c = 0x5C then
        (case cs of
           [] \<Rightarrow> None
         | e # r \<Rightarrow>
             (case escapeChar e of
                Some x \<Rightarrow> pushChar x (lexString r)
              | None \<Rightarrow>
                  if e = 0x75 \<and> length r \<ge> 4 \<and> list_all isHexDigit (take 4 r)
                  then pushChar (of_nat (hexValue (take 4 r))) (lexString (drop 4 r))
                  else None))
      else if c < 0x20 then None
      else pushChar c (lexString cs))"

lemma pushChar_SomeD: "pushChar c x = Some (t, r) \<Longrightarrow> \<exists>t'. x = Some (t', r)"
  by (cases x) (auto simp: pushChar_def)

lemma lexString_rest: "lexString s = Some (t, r) \<Longrightarrow> length r < length s"
proof (induction "length s" arbitrary: s t r rule: less_induct)
  case less
  have ih: "\<And>y t' r. lexString y = Some (t', r) \<Longrightarrow> length y < length s \<Longrightarrow> length r < length y"
    using less.hyps by blast
  show ?case
  proof (cases s)
    case Nil
    with less.prems show ?thesis by simp
  next
    case (Cons c cs)
    show ?thesis
    proof (cases "c = 0x5C")
      case False
      then show ?thesis
        using less.prems ih [of cs] unfolding Cons
        by (auto split: if_splits dest!: pushChar_SomeD)
    next
      case True
      show ?thesis
      proof (cases cs)
        case Nil
        then show ?thesis using less.prems True Cons by simp
      next
        case (Cons e rr)
        have s: "s = 0x5C # e # rr" using \<open>s = c # cs\<close> Cons True by simp
        from less.prems consider x where "pushChar x (lexString rr) = Some (t, r)"
          | x where "pushChar x (lexString (drop 4 rr)) = Some (t, r)"
          unfolding s by (auto split: option.splits if_splits)
        then show ?thesis
        proof cases
          case 1
          then obtain t' where "lexString rr = Some (t', r)" by (blast dest: pushChar_SomeD)
          from ih [OF this] show ?thesis by (simp add: s)
        next
          case 2
          then obtain t' where "lexString (drop 4 rr) = Some (t', r)"
            by (blast dest: pushChar_SomeD)
          moreover have "length (drop 4 rr) < length s" by (simp add: s)
          ultimately have "length r < length (drop 4 rr)" by (rule ih)
          then show ?thesis by (simp add: s)
        qed
      qed
    qed
  qed
qed

definition tcons :: "token \<Rightarrow> jserror + token list \<Rightarrow> jserror + token list" where
  "tcons t r = (case r of Inl e \<Rightarrow> Inl e | Inr ts \<Rightarrow> Inr (t # ts))"

function lexJSON :: "jsstring \<Rightarrow> jserror + token list" where
  "lexJSON [] = Inr []"
| "lexJSON (c # cs) =
     (if isJsonSpace c then lexJSON cs
      else if c = 0x7B then tcons TLBrace (lexJSON cs)
      else if c = 0x7D then tcons TRBrace (lexJSON cs)
      else if c = 0x3A then tcons TColon (lexJSON cs)
      else if c = 0x2C then tcons TComma (lexJSON cs)
      else if c = 0x22 then
        (case lexString cs of
           None \<Rightarrow> Inl SyntaxError
         | Some (s, r) \<Rightarrow> tcons (TString s) (lexJSON r))
      else if take 4 (c # cs) = js ''true'' then tcons TTrue (lexJSON (drop 3 cs))
      else if take 5 (c # cs) = js ''false'' then tcons TFalse (lexJSON (drop 4 cs))
      else if take 4 (c # cs) = js ''null'' then tcons TNull (lexJSON (drop 3 cs))
      else if c = 0x5B \<or> c = 0x5D \<or> c = 0x2D \<or> isDigit c then Inl Unmodelled
      else Inl SyntaxError)"
  by pat_completeness auto
termination
  by (relation "measure length") (auto dest: lexString_rest)

text \<open>
  The parser reads the tokens from left to right. Its stack holds, for every object that
  is open around the value being read, the properties it has so far and the key that
  waits for this value.
\<close>

datatype pmode =
    PValue
  | PObjStart
  | PKey "(jsstring \<times> jsval) list"
  | PColon "(jsstring \<times> jsval) list" jsstring
  | PAfterMember "(jsstring \<times> jsval) list"
  | PDone jsval

type_synonym pframe = "(jsstring \<times> jsval) list \<times> jsstring"

text \<open>A value is complete: it is the whole text's, or the pending key's of the open object.\<close>

definition deliver :: "pframe list \<Rightarrow> jsval \<Rightarrow> pframe list \<times> pmode" where
  "deliver st v =
     (case st of
        [] \<Rightarrow> ([], PDone v)
      | (props, k) # st' \<Rightarrow> (st', PAfterMember (setProp props k v)))"

definition parseStep :: "pframe list \<times> pmode \<Rightarrow> token \<Rightarrow> (pframe list \<times> pmode) option" where
  "parseStep c t =
     (case c of
        (st, PValue) \<Rightarrow>
          (case t of
             TString s \<Rightarrow> Some (deliver st (JStr s))
           | TTrue \<Rightarrow> Some (deliver st (JBool True))
           | TFalse \<Rightarrow> Some (deliver st (JBool False))
           | TNull \<Rightarrow> Some (deliver st JNull)
           | TLBrace \<Rightarrow> Some (st, PObjStart)
           | _ \<Rightarrow> None)
      | (st, PObjStart) \<Rightarrow>
          (case t of
             TRBrace \<Rightarrow> Some (deliver st (JObj []))
           | TString k \<Rightarrow> Some (st, PColon [] k)
           | _ \<Rightarrow> None)
      | (st, PKey props) \<Rightarrow>
          (case t of TString k \<Rightarrow> Some (st, PColon props k) | _ \<Rightarrow> None)
      | (st, PColon props k) \<Rightarrow>
          (case t of TColon \<Rightarrow> Some ((props, k) # st, PValue) | _ \<Rightarrow> None)
      | (st, PAfterMember props) \<Rightarrow>
          (case t of
             TComma \<Rightarrow> Some (st, PKey props)
           | TRBrace \<Rightarrow> Some (deliver st (JObj props))
           | _ \<Rightarrow> None)
      | (st, PDone v) \<Rightarrow> None)"

fun parseTokens :: "pframe list \<times> pmode \<Rightarrow> token list \<Rightarrow> jserror + jsval" where
  "parseTokens c [] = (case snd c of PDone v \<Rightarrow> Inr v | _ \<Rightarrow> Inl SyntaxError)"
| "parseTokens c (t # ts) =
     (case parseStep c t of
        None \<Rightarrow> Inl SyntaxError
      | Some c' \<Rightarrow> parseTokens c' ts)"

definition JSON_parse :: "jsstring \<Rightarrow> jserror + jsval" where
  "JSON_parse text =
     (case lexJSON text of
        Inl e \<Rightarrow> Inl e
      | Inr ts \<Rightarrow> parseTokens ([], PValue) ts)"

definition decodeObj :: "jsstring \<Rightarrow> jserror + jsval" where
  "decodeObj str =
     (case atob str of
        Inl e \<Rightarrow> Inl e
      | Inr b \<Rightarrow>
          (case decodeURIComponent (escape b) of
             Inl e \<Rightarrow> Inl e
           | Inr t \<Rightarrow> JSON_parse t))"

section \<open>The shareable form of a card\<close>

text \<open>
  A stored card as the JavaScript object that \<open>getMyCard\<close> returns: an absent field is
  an absent property. The properties stand in the order in which \<open>saveSettings\<close> writes
  them.
\<close>

fun present :: "jsstring \<Rightarrow> jsval option \<Rightarrow> (jsstring \<times> jsval) list" where
  "present k None = []"
| "present k (Some v) = [(k, v)]"

definition optStr :: "jsstring option \<Rightarrow> jsval" where
  "optStr v = (case v of None \<Rightarrow> JUndefined | Some s \<Rightarrow> JStr s)"

definition resumeToJs :: "resumeLinks \<Rightarrow> jsval" where
  "resumeToJs r = JObj [(js ''pdf'', JStr (pdf r)), (js ''docx'', JStr (docx r))]"

definition resumeFieldToJs :: "resumeField \<Rightarrow> jsval" where
  "resumeFieldToJs r = (case r of ResumeString s \<Rightarrow> JStr s | ResumeObject l \<Rightarrow> resumeToJs l)"

definition linksProps :: "portfolioLinks \<Rightarrow> (jsstring \<times> jsval) list" where
  "linksProps l =
     present (js ''cert'') (map_option JStr (cert l)) @
     present (js ''edu'') (map_option JStr (edu l)) @
     present (js ''proj'') (map_option JStr (proj l)) @
     present (js ''ref'') (map_option JStr (ref l)) @
     present (js ''resume'') (map_option resumeFieldToJs (resume l)) @
     present (js ''work'') (map_option JStr (work l))"

definition visibilityToJs :: "portfolioVisibility \<Rightarrow> jsval" where
  "visibilityToJs v =
     JObj (present (js ''cert'') (map_option JBool (showCert v)) @
           present (js ''edu'') (map_option JBool (showEdu v)) @
           present (js ''proj'') (map_option JBool (showProj v)) @
           present (js ''ref'') (map_option JBool (showRef v)) @
           present (js ''resume'') (map_option JBool (showResume v)) @
           present (js ''work'') (map_option JBool (showWork v)))"

definition allVisible :: jsval where
  "allVisible =
     JObj [(js ''cert'', JBool True), (js ''edu'', JBool True), (js ''proj'', JBool True),
           (js ''ref'', JBool True), (js ''resume'', JBool True), (js ''work'', JBool True)]"

text \<open>
  \<open>buildShareObj(cardData, forQRCode)\<close>, the second definition of \<open>storage.js\<close>, which
  is the one in force. \<open>compressImageForQR\<close> returns the empty string whatever it is
  given.
\<close>

definition compressImageForQR :: "jsstring \<Rightarrow> jsstring" where
  "compressImageForQR dataUrl = []"

definition buildShareObj :: "card \<Rightarrow> bool \<Rightarrow> jsval" where
  "buildShareObj cardData forQRCode =
     (let resumeData =
            (case portfolioLinks cardData of
               None \<Rightarrow> \<lparr> pdf = [], docx = [] \<rparr>
             | Some l \<Rightarrow>
                 (case resume l of
                    Some (ResumeString s) \<Rightarrow> \<lparr> pdf = s, docx = [] \<rparr>
                  | Some (ResumeObject r) \<Rightarrow> r
                  | None \<Rightarrow> \<lparr> pdf = [], docx = [] \<rparr>));
          profilePicData =
            (case profilePic cardData of
               None \<Rightarrow> None
             | Some p \<Rightarrow>
                 if forQRCode \<and> p \<noteq> [] \<and> startsWith p (js ''data:image'')
                 then Some (compressImageForQR p)
                 else Some p)
      in JObj
           [(js ''firstName'', optStr (firstName cardData)),
            (js ''lastName'', optStr (lastName cardData)),
            (js ''jobTitle'', optStr (jobTitle cardData)),
            (js ''email'', optStr (email cardData)),
            (js ''phone'', optStr (phone cardData)),
            (js ''phoneE164'', optStr (phoneE164 cardData)),
            (js ''linkedin'', optStr (linkedin cardData)),
            (js ''cardColor'', optStr (cardColor cardData)),
            (js ''bgColor'', optStr (bgColor cardData)),
            (js ''profilePic'', optStr profilePicData),
            (js ''portfolioLinks'',
               JObj (setProp
                       (case portfolioLinks cardData of None \<Rightarrow> [] | Some l \<Rightarrow> linksProps l)
                       (js ''resume'') (resumeToJs resumeData))),
            (js ''portfolioVisibility'',
               (case portfolioVisibility cardData of
                  None \<Rightarrow> allVisible
                | Some v \<Rightarrow> visibilityToJs v))])"

section \<open>share.js: the QR code\<close>

text \<open>
  The object that \<open>generateQRCode\<close> encodes: the shareable form, its picture emptied when
  it is an embedded image.
\<close>

definition qrShareObj :: "card \<Rightarrow> jsval" where
  "qrShareObj rawCard =
     (let fullShareObj = buildShareObj rawCard False;
          profilePicForQR =
            (case getProp fullShareObj (js ''profilePic'') of
               JStr p \<Rightarrow> if p \<noteq> [] \<and> startsWith p (js ''data:image'') then JStr [] else JStr p
             | v \<Rightarrow> v)
      in case fullShareObj of
           JObj ps \<Rightarrow> JObj (setProp ps (js ''profilePic'') profilePicForQR)
         | v \<Rightarrow> v)"

definition shareUrl :: "jsstring \<Rightarrow> jsstring \<Rightarrow> jsstring" where
  "shareUrl baseUrl encodedCard =
     baseUrl @ (if js_includes baseUrl (js ''?'') then js ''&'' else js ''?'') @
     js ''card='' @ encodedCard"

text \<open>
  What \<open>generateQRCode\<close> does with the QR container: nothing (no card, or no container),
  the share link as text, or an image whose source is the request to the QR service. The
  timeout and the load and error handlers of the image, which run later, are not
  modelled. \<open>baseUrl\<close> is the address of the page without its query.
\<close>

datatype qrOutcome =
    NothingRendered
  | LinkShown jsstring
  | QRRequested jsstring
  | Threw jserror

definition generateQRCode :: "storage \<Rightarrow> bool \<Rightarrow> jsstring \<Rightarrow> qrOutcome" where
  "generateQRCode st hasContainer baseUrl =
     (case getMyCard st of
        None \<Rightarrow> NothingRendered
      | Some rawCard \<Rightarrow>
          if \<not> hasContainer then NothingRendered
          else
            (case encodeObj (qrShareObj rawCard) of
               Inl e \<Rightarrow> Threw e
             | Inr encodedCard \<Rightarrow>
                 if length encodedCard > 4000 then LinkShown (shareUrl baseUrl encodedCard)
                 else
                   (case encodeURIComponent (shareUrl baseUrl encodedCard) of
                      Inl e \<Rightarrow> Threw e
                    | Inr q \<Rightarrow>
                        QRRequested
                          (js ''https://quickchart.io/qr?text='' @ q @
                           js ''&size=256&dark=000000&light=ffffff''))))"

definition attemptsQR :: "qrOutcome \<Rightarrow> bool" where
  "attemptsQR out = (case out of QRRequested src \<Rightarrow> True | _ \<Rightarrow> False)"


section \<open>Encoding and decoding a card\<close>

lemma unat_of_nat16: "n < 65536 \<Longrightarrow> unat (of_nat n :: 16 word) = n"
  by (simp add: unat_of_nat)

lemma isUpper_unat: "isUpper c \<longleftrightarrow> 65 \<le> unat c \<and> unat c \<le> 90"
  by (simp add: isUpper_def word_le_nat_alt)

lemma isLower_unat: "isLower c \<longleftrightarrow> 97 \<le> unat c \<and> unat c \<le> 122"
  by (simp add: isLower_def word_le_nat_alt)

lemma isDigit_unat: "isDigit c \<longleftrightarrow> 48 \<le> unat c \<and> unat c \<le> 57"
  by (simp add: isDigit_def word_le_nat_alt)

lemma eq_unat: "n < 65536 \<Longrightarrow> ((c :: 16 word) = of_nat n) = (unat c = n)"
  using unat_of_nat16 by fastforce

lemma unat_b64Char: "i < 64 \<Longrightarrow> unat (b64Char i) =
  (if i < 26 then 65 + i else if i < 52 then 71 + i else if i < 62 then i - 4 else if i = 62 then 43 else 47)"
  unfolding b64Char_def by (simp add: unat_of_nat16 del: of_nat_add of_nat_diff)

lemma b64Index_unat: "b64Index c = (let n = unat c in
   if 65 \<le> n \<and> n \<le> 90 then Some (n - 65)
   else if 97 \<le> n \<and> n \<le> 122 then Some (n - 71)
   else if 48 \<le> n \<and> n \<le> 57 then Some (n + 4)
   else if n = 43 then Some 62 else if n = 47 then Some 63 else None)"
  unfolding b64Index_def isUpper_unat isLower_unat isDigit_unat Let_def
  using eq_unat [of 43 c] eq_unat [of 47 c] by simp

lemma b64Index_b64Char: "i < 64 \<Longrightarrow> b64Index (b64Char i) = Some i"
  by (simp add: b64Index_unat unat_b64Char Let_def) arith

lemma b64Index_pad: "b64Index 0x3D = None"
  by (simp add: b64Index_unat)

lemma b64Index_ws: "isAsciiWhitespace c \<Longrightarrow> b64Index c = None"
  by (auto simp: isAsciiWhitespace_def b64Index_unat)

lemma b64Char_not_pad: "i < 64 \<Longrightarrow> b64Char i \<noteq> 0x3D"
  using b64Index_b64Char [of i] b64Index_pad by auto

lemma b64Char_not_ws: "i < 64 \<Longrightarrow> \<not> isAsciiWhitespace (b64Char i)"
  using b64Index_b64Char [of i] b64Index_ws [of "b64Char i"] by auto

fun sextets :: "nat list \<Rightarrow> nat list" where
  "sextets [] = []"
| "sextets [a] = [a div 4, a mod 4 * 16]"
| "sextets [a, b] = [a div 4, a mod 4 * 16 + b div 16, b mod 16 * 4]"
| "sextets (a # b # c # r) =
     [a div 4, a mod 4 * 16 + b div 16, b mod 16 * 4 + c div 64, c mod 64] @ sextets r"

definition padding :: "nat \<Rightarrow> jsstring" where
  "padding n = (if n mod 3 = 0 then [] else if n mod 3 = 1 then [0x3D, 0x3D] else [0x3D])"

lemma mod3_Suc3: "Suc (Suc (Suc n)) mod 3 = n mod 3"
  by presburger

lemma padding_simps: "padding 0 = []" "padding (Suc 0) = [0x3D, 0x3D]"
  "padding (Suc (Suc 0)) = [0x3D]" "padding (Suc (Suc (Suc n))) = padding n"
  unfolding padding_def mod3_Suc3 by simp_all

lemma base64Encode_sextets: "base64Encode bs = map b64Char (sextets bs) @ padding (length bs)"
  by (induction bs rule: sextets.induct) (simp_all add: padding_simps)

lemma pack_div: "y < n \<Longrightarrow> (x * n + y) div n = (x::nat)"
  by simp

lemma pack_mod: "y < n \<Longrightarrow> (x * n + y) mod n = (y::nat)"
  by simp

lemma sextet_bounds:
  fixes a b c :: nat
  assumes "a < 256" "b < 256" "c < 256"
  shows "a div 4 < 64" "a mod 4 * 16 < 64" "a mod 4 * 16 + b div 16 < 64"
    "b mod 16 * 4 < 64" "b mod 16 * 4 + c div 64 < 64" "c mod 64 < 64"
proof -
  have a4: "a mod 4 < 4" and b16: "b mod 16 < 16" by simp_all
  have bd: "b div 16 < 16" and cd: "c div 64 < 4" using assms by simp_all
  show "a div 4 < 64" using assms by simp
  show "a mod 4 * 16 < 64" using a4 by linarith
  show "a mod 4 * 16 + b div 16 < 64" using a4 bd by linarith
  show "b mod 16 * 4 < 64" using b16 by linarith
  show "b mod 16 * 4 + c div 64 < 64" using b16 cd by linarith
  show "c mod 64 < 64" by simp
qed

lemma sextet_decode:
  fixes a b c :: nat
  assumes "a < 256" "b < 256" "c < 256"
  shows "a div 4 * 4 + (a mod 4 * 16 + b div 16) div 16 = a"
    "(a mod 4 * 16 + b div 16) mod 16 * 16 + (b mod 16 * 4 + c div 64) div 4 = b"
    "(b mod 16 * 4 + c div 64) mod 4 * 64 + c mod 64 = c"
    "a div 4 * 4 + (a mod 4 * 16) div 16 = a"
    "(a mod 4 * 16 + b div 16) mod 16 * 16 + (b mod 16 * 4) div 4 = b"
proof -
  have bd: "b div 16 < 16" and cd: "c div 64 < 4" using assms by simp_all
  have 1: "(a mod 4 * 16 + b div 16) div 16 = a mod 4" using bd by (rule pack_div)
  have 2: "(a mod 4 * 16 + b div 16) mod 16 = b div 16" using bd by (rule pack_mod)
  have 3: "(b mod 16 * 4 + c div 64) div 4 = b mod 16" using cd by (rule pack_div)
  have 4: "(b mod 16 * 4 + c div 64) mod 4 = c div 64" using cd by (rule pack_mod)
  show "a div 4 * 4 + (a mod 4 * 16 + b div 16) div 16 = a" unfolding 1 by simp
  show "(a mod 4 * 16 + b div 16) mod 16 * 16 + (b mod 16 * 4 + c div 64) div 4 = b"
    unfolding 2 3 by simp
  show "(b mod 16 * 4 + c div 64) mod 4 * 64 + c mod 64 = c" unfolding 4 by simp
  show "a div 4 * 4 + (a mod 4 * 16) div 16 = a" by simp
  show "(a mod 4 * 16 + b div 16) mod 16 * 16 + (b mod 16 * 4) div 4 = b" unfolding 2 by simp
qed

lemma sextets_bound: "list_all (\<lambda>b. b < 256) bs \<Longrightarrow> list_all (\<lambda>s. s < 64) (sextets bs)"
proof (induction bs rule: sextets.induct)
  case 1
  show ?case by simp
next
  case (2 a)
  then have "a < 256" by simp
  from sextet_bounds(1,2) [OF this this this] show ?case by simp
next
  case (3 a b)
  then have "a < 256" "b < 256" by simp_all
  from sextet_bounds(1,3,4) [OF this this(2)] show ?case by simp
next
  case (4 a b c r)
  then have "a < 256" "b < 256" "c < 256" and r: "list_all (\<lambda>s. s < 64) (sextets r)" by simp_all
  from sextet_bounds(1,3,5,6) [OF this(1,2,3)] r show ?case by simp
qed

lemma base64Decode_sextets: "list_all (\<lambda>b. b < 256) bs \<Longrightarrow> base64Decode (sextets bs) = bs"
proof (induction bs rule: sextets.induct)
  case 1
  show ?case by simp
next
  case (2 a)
  then have "a < 256" by simp
  from sextet_decode(4) [OF this this this] show ?case
    by (simp only: sextets.simps base64Decode.simps)
next
  case (3 a b)
  then have "a < 256" "b < 256" by simp_all
  from sextet_decode(1,5) [OF this this(2)] show ?case
    by (simp only: sextets.simps base64Decode.simps)
next
  case (4 a b c r)
  then have "a < 256" "b < 256" "c < 256" and r: "base64Decode (sextets r) = r" by simp_all
  from sextet_decode(1,2,3) [OF this(1,2,3)] r show ?case
    by (simp only: sextets.simps base64Decode.simps append.simps)
qed

lemma length_sextets_mod:
  "length (sextets bs) mod 4 = (if length bs mod 3 = 0 then 0 else length bs mod 3 + 1)"
proof (induction bs rule: sextets.induct)
  case (4 a b c r)
  have "length (sextets (a # b # c # r)) = 4 + length (sextets r)" by simp
  then have "length (sextets (a # b # c # r)) mod 4 = length (sextets r) mod 4" by simp
  then show ?case using 4 by (simp add: mod3_Suc3)
qed simp_all

lemma those_b64Index:
  "list_all (\<lambda>s. s < 64) sx \<Longrightarrow> those (map (b64Index \<circ> b64Char) sx) = Some sx"
  by (induction sx) (simp_all add: b64Index_b64Char)

lemma core_no_pad: "list_all (\<lambda>s. s < 64) sx \<Longrightarrow> 0x3D \<notin> set (map b64Char sx)"
  by (induction sx) (auto simp: b64Char_not_pad)

lemma core_no_ws:
  "list_all (\<lambda>s. s < 64) sx \<Longrightarrow>
   filter (\<lambda>c. \<not> isAsciiWhitespace c) (map b64Char sx) = map b64Char sx"
  by (induction sx) (simp_all add: b64Char_not_ws)

lemma padding_no_ws: "filter (\<lambda>c. \<not> isAsciiWhitespace c) (padding n) = padding n"
  by (simp add: padding_def isAsciiWhitespace_def)

lemma stripPadding_core:
  assumes np: "0x3D \<notin> set core"
  shows "length core mod 4 = 0 \<Longrightarrow> stripPadding core = core"
    and "length core mod 4 = 2 \<Longrightarrow> stripPadding (core @ [0x3D, 0x3D]) = core"
    and "length core mod 4 = 3 \<Longrightarrow> stripPadding (core @ [0x3D]) = core"
proof -
  have d2: "drop (length core - 2) core \<noteq> [0x3D, 0x3D]"
  proof
    assume "drop (length core - 2) core = [0x3D, 0x3D]"
    then have "0x3D \<in> set (drop (length core - 2) core)" by simp
    then show False using np by (meson in_set_dropD)
  qed
  have d1: "drop (length core - 1) core \<noteq> [0x3D]"
  proof
    assume "drop (length core - 1) core = [0x3D]"
    then have "0x3D \<in> set (drop (length core - 1) core)" by simp
    then show False using np by (meson in_set_dropD)
  qed
  show "length core mod 4 = 0 \<Longrightarrow> stripPadding core = core"
    using d1 d2 by (simp add: stripPadding_def)
  show "length core mod 4 = 2 \<Longrightarrow> stripPadding (core @ [0x3D, 0x3D]) = core"
  proof -
    assume m: "length core mod 4 = 2"
    have "(length core + 2) mod 4 = (length core mod 4 + 2) mod 4" by presburger
    then have "length (core @ [0x3D, 0x3D]) mod 4 = 0" using m by simp
    then show ?thesis by (simp add: stripPadding_def)
  qed
  show "length core mod 4 = 3 \<Longrightarrow> stripPadding (core @ [0x3D]) = core"
  proof -
    assume m: "length core mod 4 = 3"
    have "(length core + 1) mod 4 = (length core mod 4 + 1) mod 4" by presburger
    then have l: "length (core @ [0x3D]) mod 4 = 0" using m by simp
    have ne: "core \<noteq> []" using m by auto
    have "drop (length core - 1) core \<noteq> [0x3D]" by (rule d1)
    have "drop (length (core @ [0x3D]) - 2) (core @ [0x3D]) = drop (length core - 1) core @ [0x3D]"
      using ne by (simp add: Suc_diff_le Suc_leI)
    moreover have "drop (length core - 1) core @ [0x3D] \<noteq> [0x3D, 0x3D]"
      using d1 by (cases "drop (length core - 1) core") auto
    ultimately show ?thesis using l by (simp add: stripPadding_def)
  qed
qed

lemma stripPadding_encode:
  assumes "list_all (\<lambda>b. b < 256) bs"
  shows "stripPadding (base64Encode bs) = map b64Char (sextets bs)"
proof -
  let ?core = "map b64Char (sextets bs)"
  have np: "0x3D \<notin> set ?core" using assms by (intro core_no_pad sextets_bound)
  have lm: "length ?core mod 4 = (if length bs mod 3 = 0 then 0 else length bs mod 3 + 1)"
    by (simp add: length_sextets_mod)
  have "length bs mod 3 = 0 \<or> length bs mod 3 = 1 \<or> length bs mod 3 = 2" by presburger
  then show ?thesis
  proof (elim disjE)
    assume m: "length bs mod 3 = 0"
    then show ?thesis using stripPadding_core(1) [OF np] lm
      by (simp add: base64Encode_sextets padding_def)
  next
    assume m: "length bs mod 3 = 1"
    then show ?thesis using stripPadding_core(2) [OF np] lm
      by (simp add: base64Encode_sextets padding_def)
  next
    assume m: "length bs mod 3 = 2"
    then show ?thesis using stripPadding_core(3) [OF np] lm
      by (simp add: base64Encode_sextets padding_def)
  qed
qed

lemma base64Encode_no_ws:
  assumes "list_all (\<lambda>b. b < 256) bs"
  shows "filter (\<lambda>c. \<not> isAsciiWhitespace c) (base64Encode bs) = base64Encode bs"
  using core_no_ws [OF sextets_bound [OF assms]]
  by (simp add: base64Encode_sextets padding_no_ws)

lemma atob_base64Encode:
  assumes "list_all (\<lambda>b. b < 256) bs"
  shows "atob (base64Encode bs) = Inr (map of_nat bs)"
proof -
  have lm: "length (sextets bs) mod 4 \<noteq> 1"
    by (simp add: length_sextets_mod)
  show ?thesis
    using lm
    by (simp add: atob_def base64Encode_no_ws [OF assms] stripPadding_encode [OF assms]
          those_b64Index [OF sextets_bound [OF assms]] base64Decode_sextets [OF assms])
qed

lemma unat_le_255: "\<not> list_ex (\<lambda>c. c > 0xFF) s \<Longrightarrow> list_all (\<lambda>b. b < 256) (map unat (s :: jsstring))"
  by (induction s) (auto simp: word_less_nat_alt not_less word_le_nat_alt)

text \<open>Decoding the base64 text of a string of octets gives the string back.\<close>

lemma atob_btoa:
  assumes "\<not> list_ex (\<lambda>c. c > 0xFF) s"
  shows "\<exists>t. btoa s = Inr t \<and> atob t = Inr s"
proof -
  have "atob (base64Encode (map unat s)) = Inr (map of_nat (map unat s))"
    by (rule atob_base64Encode [OF unat_le_255 [OF assms]])
  then show ?thesis using assms by (simp add: btoa_def comp_def)
qed

lemma isHexDigit_unat: "isHexDigit c \<longleftrightarrow>
    (48 \<le> unat c \<and> unat c \<le> 57) \<or> (97 \<le> unat c \<and> unat c \<le> 102) \<or> (65 \<le> unat c \<and> unat c \<le> 70)"
  by (simp add: isHexDigit_def isDigit_unat word_le_nat_alt)

lemma unat_hexUpper: "d < 16 \<Longrightarrow> unat (hexUpper d) = (if d < 10 then 48 + d else 55 + d)"
  unfolding hexUpper_def by (simp add: unat_of_nat16 del: of_nat_add)

lemma unat_hexLower: "d < 16 \<Longrightarrow> unat (hexLower d) = (if d < 10 then 48 + d else 87 + d)"
  unfolding hexLower_def by (simp add: unat_of_nat16 del: of_nat_add)

lemma hexDigitValue_unat: "hexDigitValue c =
   (if 48 \<le> unat c \<and> unat c \<le> 57 then unat c - 48
    else if 97 \<le> unat c \<and> unat c \<le> 102 then unat c - 87 else unat c - 55)"
  by (simp add: hexDigitValue_def isDigit_unat word_le_nat_alt)

lemma hexUpper_facts:
  assumes "d < 16"
  shows "isHexDigit (hexUpper d)" "hexDigitValue (hexUpper d) = d" "hexUpper d \<noteq> 0x75"
    "hexUpper d \<noteq> 0x25"
proof -
  show "isHexDigit (hexUpper d)" using assms by (simp add: isHexDigit_unat unat_hexUpper)
  show "hexDigitValue (hexUpper d) = d" using assms by (simp add: hexDigitValue_unat unat_hexUpper)
  have "unat (hexUpper d) \<noteq> 117" "unat (hexUpper d) \<noteq> 37" using assms by (simp_all add: unat_hexUpper)
  then show "hexUpper d \<noteq> 0x75" "hexUpper d \<noteq> 0x25" by auto
qed

lemma hexLower_facts:
  assumes "d < 16"
  shows "isHexDigit (hexLower d)" "hexDigitValue (hexLower d) = d"
proof -
  show "isHexDigit (hexLower d)" using assms by (simp add: isHexDigit_unat unat_hexLower)
  show "hexDigitValue (hexLower d) = d" using assms by (simp add: hexDigitValue_unat unat_hexLower)
qed

lemma hexValue2: "hexValue [a, b] = 16 * hexDigitValue a + hexDigitValue b"
  by (simp add: hexValue_def)

lemma hexValue_percent:
  assumes "b < 256"
  shows "hexValue [hexUpper (b div 16), hexUpper (b mod 16)] = b"
proof -
  have "b div 16 < 16" using assms by simp
  then show ?thesis by (simp add: hexValue2 hexUpper_facts)
qed

lemma unescape_percent:
  assumes "b < 256"
  shows "unescape (percentEncode b @ rest) = of_nat b # unescape rest"
proof -
  have d: "b div 16 < 16" "b mod 16 < 16" using assms by simp_all
  show ?thesis
    using hexUpper_facts [OF d(1)] hexUpper_facts [OF d(2)] hexValue_percent [OF assms]
    by (simp add: percentEncode_def)
qed

lemma unescape_percentAll:
  "list_all (\<lambda>b. b < 256) bs \<Longrightarrow> unescape (percentEncodeAll bs @ rest) = map of_nat bs @ unescape rest"
proof (induction bs)
  case Nil
  show ?case by (simp add: percentEncodeAll_def)
next
  case (Cons b bs)
  then have b: "b < 256" and ih: "unescape (percentEncodeAll bs @ rest) = map of_nat bs @ unescape rest"
    by simp_all
  have "percentEncodeAll (b # bs) @ rest = percentEncode b @ (percentEncodeAll bs @ rest)"
    by (simp add: percentEncodeAll_def)
  then show ?case using unescape_percent [OF b] ih by simp
qed

lemma unescape_plain: "c \<noteq> 0x25 \<Longrightarrow> unescape (c # rest) = c # unescape rest"
  by simp

definition pairCodePoint :: "jschar \<Rightarrow> jschar \<Rightarrow> nat" where
  "pairCodePoint c d = 0x10000 + (unat c - 0xD800) * 0x400 + (unat d - 0xDC00)"

fun wellFormed :: "jsstring \<Rightarrow> bool" where
  "wellFormed [] = True"
| "wellFormed (c # cs) =
     (if isHighSurrogate c then (case cs of [] \<Rightarrow> False | d # ds \<Rightarrow> isLowSurrogate d \<and> wellFormed ds)
      else \<not> isLowSurrogate c \<and> wellFormed cs)"

fun utf8Bytes :: "jsstring \<Rightarrow> nat list" where
  "utf8Bytes [] = []"
| "utf8Bytes (c # cs) =
     (if isHighSurrogate c
      then (case cs of [] \<Rightarrow> [] | d # ds \<Rightarrow> utf8Octets (pairCodePoint c d) @ utf8Bytes ds)
      else utf8Octets (unat c) @ utf8Bytes cs)"

lemma isHighSurrogate_unat: "isHighSurrogate c \<longleftrightarrow> 0xD800 \<le> unat c \<and> unat c \<le> 0xDBFF"
  by (simp add: isHighSurrogate_def word_le_nat_alt)

lemma isLowSurrogate_unat: "isLowSurrogate c \<longleftrightarrow> 0xDC00 \<le> unat c \<and> unat c \<le> 0xDFFF"
  by (simp add: isLowSurrogate_def word_le_nat_alt)

lemma unat_lt_65536: "unat (c :: jschar) < 65536"
proof -
  have "unat c < 2 ^ LENGTH(16)" by (rule unsigned_less)
  then show ?thesis by simp
qed

lemma isUnreserved_unat:
  "isUnreserved c \<longleftrightarrow>
     (65 \<le> unat c \<and> unat c \<le> 90) \<or> (97 \<le> unat c \<and> unat c \<le> 122) \<or>
     (48 \<le> unat c \<and> unat c \<le> 57) \<or>
     unat c \<in> {0x2D, 0x5F, 0x2E, 0x21, 0x7E, 0x2A, 0x27, 0x28, 0x29}"
  unfolding isUnreserved_def isLetter_def isUpper_unat isLower_unat isDigit_unat
  using eq_unat [of 45 c] eq_unat [of 95 c] eq_unat [of 46 c] eq_unat [of 33 c]
    eq_unat [of 126 c] eq_unat [of 42 c] eq_unat [of 39 c] eq_unat [of 40 c]
    eq_unat [of 41 c]
  by auto

lemma isUnreserved_facts:
  assumes "isUnreserved c"
  shows "unat c < 128" "c \<noteq> 0x25" "\<not> isHighSurrogate c" "\<not> isLowSurrogate c"
proof -
  show u: "unat c < 128" using assms unfolding isUnreserved_unat by auto
  have "unat c \<noteq> 37" using assms unfolding isUnreserved_unat by auto
  then show "c \<noteq> 0x25" by auto
  show "\<not> isHighSurrogate c" "\<not> isLowSurrogate c"
    using u by (simp_all add: isHighSurrogate_unat isLowSurrogate_unat)
qed

lemma mod64_lt: "(n::nat) mod 64 < 128"
  by (rule less_trans [of _ 64]) simp_all

lemma utf8Octets_bound: "cp < 0x400000 \<Longrightarrow> list_all (\<lambda>b. b < 256) (utf8Octets cp)"
  by (auto simp: utf8Octets_def mod64_lt div_less_iff_less_mult)

lemma pairCodePoint_bounds:
  assumes "isHighSurrogate c" "isLowSurrogate d"
  shows "0x10000 \<le> pairCodePoint c d" "pairCodePoint c d < 0x110000"
proof -
  have "unat c - 0xD800 \<le> 0x3FF" using assms unfolding isHighSurrogate_unat by linarith
  then have "(unat c - 0xD800) * 0x400 \<le> 0x3FF * 0x400" by (rule mult_le_mono1)
  moreover have "unat d - 0xDC00 \<le> 0x3FF" using assms unfolding isLowSurrogate_unat by linarith
  ultimately show "pairCodePoint c d < 0x110000" unfolding pairCodePoint_def by linarith
  show "0x10000 \<le> pairCodePoint c d" unfolding pairCodePoint_def by linarith
qed

lemma utf8Bytes_bound: "list_all (\<lambda>b. b < 256) (utf8Bytes s)"
proof (induction s rule: utf8Bytes.induct)
  case 1
  show ?case by simp
next
  case (2 c cs)
  show ?case
  proof (cases "isHighSurrogate c")
    case True
    show ?thesis
    proof (cases cs)
      case Nil
      then show ?thesis using True by simp
    next
      case (Cons d ds)
      have "unat c - 0xD800 \<le> 0x3FF" using True unfolding isHighSurrogate_unat by linarith
      then have "(unat c - 0xD800) * 0x400 \<le> 0x3FF * 0x400" by (rule mult_le_mono1)
      moreover have "unat d - 0xDC00 < 0x2400" using unat_lt_65536 [of d] by linarith
      ultimately have "pairCodePoint c d < 0x400000" unfolding pairCodePoint_def by linarith
      then show ?thesis using True Cons "2.IH"(1) [OF True Cons]
        by (simp add: utf8Octets_bound)
    qed
  next
    case False
    have "unat c < 0x400000" using unat_lt_65536 [of c] by linarith
    then show ?thesis using False "2.IH"(2) [OF False] by (simp add: utf8Octets_bound)
  qed
qed

lemma prepend_Inr: "prepend p (Inr s) = Inr (p @ s)"
  by (simp add: prepend_def)

text \<open>
  On a string without a lone surrogate, \<open>encodeURIComponent\<close> does not throw, and
  \<open>unescape\<close> turns its result into the octets of the string's UTF-8 form.
\<close>

lemma unescape_encodeURIComponent:
  "wellFormed s \<Longrightarrow>
   \<exists>e. encodeURIComponent s = Inr e \<and> unescape e = map of_nat (utf8Bytes s)"
proof (induction s rule: wellFormed.induct)
  case 1
  show ?case by simp
next
  case (2 c cs)
  show ?case
  proof (cases "isUnreserved c")
    case True
    note u = isUnreserved_facts [OF True]
    from "2.prems" u(3) have "wellFormed cs" by simp
    from "2.IH"(2) [OF u(3) this] obtain e
      where e: "encodeURIComponent cs = Inr e" "unescape e = map of_nat (utf8Bytes cs)"
      by blast
    have "utf8Octets (unat c) = [unat c]" using u(1) by (simp add: utf8Octets_def)
    then show ?thesis using True u e by (simp add: prepend_Inr)
  next
    case False
    show ?thesis
    proof (cases "isHighSurrogate c")
      case high: True
      then have nl: "\<not> isLowSurrogate c"
        by (simp add: isHighSurrogate_unat isLowSurrogate_unat)
      from "2.prems" high obtain d ds where cs: "cs = d # ds" and d: "isLowSurrogate d"
        and w: "wellFormed ds"
        by (cases cs) auto
      from "2.IH"(1) [OF high cs w] obtain e
        where e: "encodeURIComponent ds = Inr e" "unescape e = map of_nat (utf8Bytes ds)"
        by blast
      have b: "list_all (\<lambda>b. b < 256) (utf8Octets (pairCodePoint c d))"
        using pairCodePoint_bounds(2) [OF high d] by (intro utf8Octets_bound) simp
      show ?thesis
        using False high nl cs d e unescape_percentAll [OF b]
        by (simp add: prepend_Inr pairCodePoint_def)
    next
      case nh: False
      from "2.prems" nh have nl: "\<not> isLowSurrogate c" and w: "wellFormed cs" by simp_all
      from "2.IH"(2) [OF nh w] obtain e
        where e: "encodeURIComponent cs = Inr e" "unescape e = map of_nat (utf8Bytes cs)"
        by blast
      have "unat c < 0x400000" using unat_lt_65536 [of c] by linarith
      then have b: "list_all (\<lambda>b. b < 256) (utf8Octets (unat c))" by (rule utf8Octets_bound)
      show ?thesis
        using False nh nl e unescape_percentAll [OF b]
        by (simp add: prepend_Inr)
    qed
  qed
qed

lemma escape_append: "escape (a @ b) = escape a @ escape b"
  by (simp add: escape_def)

lemma escape_Cons: "escape (c # s) = escapeUnit c @ escape s"
  by (simp add: escape_def)

lemma isEscapeSafe_unat:
  "isEscapeSafe c \<longleftrightarrow>
     (65 \<le> unat c \<and> unat c \<le> 90) \<or> (97 \<le> unat c \<and> unat c \<le> 122) \<or>
     (48 \<le> unat c \<and> unat c \<le> 57) \<or>
     unat c \<in> {0x40, 0x2A, 0x5F, 0x2B, 0x2D, 0x2E, 0x2F}"
  unfolding isEscapeSafe_def isLetter_def isUpper_unat isLower_unat isDigit_unat
  using eq_unat [of 64 c] eq_unat [of 42 c] eq_unat [of 95 c] eq_unat [of 43 c]
    eq_unat [of 45 c] eq_unat [of 46 c] eq_unat [of 47 c]
  by auto

lemma isEscapeSafe_facts:
  assumes "isEscapeSafe c"
  shows "unat c < 128" "c \<noteq> 0x25"
proof -
  show "unat c < 128" using assms unfolding isEscapeSafe_unat by auto
  have "unat c \<noteq> 37" using assms unfolding isEscapeSafe_unat by auto
  then show "c \<noteq> 0x25" by auto
qed

lemma escapeUnit_octet:
  assumes "128 \<le> b" "b < 256"
  shows "escapeUnit (of_nat b) = percentEncode b"
proof -
  have u: "unat (of_nat b :: jschar) = b" using assms by (simp add: unat_of_nat16)
  then have "\<not> isEscapeSafe (of_nat b)" using isEscapeSafe_facts(1) [of "of_nat b"] assms by auto
  then show ?thesis using u assms by (simp add: escapeUnit_def)
qed

lemma escape_octets:
  "list_all (\<lambda>b. 128 \<le> b \<and> b < 256) octs \<Longrightarrow>
   escape (map of_nat octs) = percentEncodeAll octs"
  by (induction octs) (simp_all add: escape_def percentEncodeAll_def escapeUnit_octet)

lemma decode_plain: "c \<noteq> 0x25 \<Longrightarrow> decodeURIComponent (c # R) = prepend [c] (decodeURIComponent R)"
  by simp

lemma decode_percent:
  assumes "b < 256"
  shows "decodeURIComponent (percentEncode b @ R) =
     (if b < 0x80 then prepend [of_nat b] (decodeURIComponent R)
      else if b < 0xC0 \<or> 0xF8 \<le> b then Inl URIError
      else (case readOctets ((if b < 0xE0 then 2 else if b < 0xF0 then 3 else 4) - 1) R of
              None \<Rightarrow> Inl URIError
            | Some octets \<Rightarrow>
                (case utf8CodePoint (b # octets) of
                   None \<Rightarrow> Inl URIError
                 | Some cp \<Rightarrow>
                     prepend (utf16Units cp)
                       (decodeURIComponent
                          (drop (3 * ((if b < 0xE0 then 2 else if b < 0xF0 then 3 else 4) - 1)) R)))))"
proof -
  have d: "b div 16 < 16" "b mod 16 < 16" using assms by simp_all
  show ?thesis
    using hexUpper_facts(1) [OF d(1)] hexUpper_facts(1) [OF d(2)] hexValue_percent [OF assms]
    by (simp add: percentEncode_def Let_def cong: option.case_cong)
qed

lemma decode_ascii:
  assumes "unat c < 128"
  shows "decodeURIComponent (escapeUnit c @ R) = prepend [c] (decodeURIComponent R)"
proof (cases "isEscapeSafe c")
  case True
  then show ?thesis using isEscapeSafe_facts(2) [OF True] by (simp add: escapeUnit_def)
next
  case False
  have "unat c < 256" using assms by simp
  from decode_percent [OF this, of R] show ?thesis
    using False assms by (simp add: escapeUnit_def)
qed

lemma readOctets_percent:
  "list_all (\<lambda>b. 128 \<le> b \<and> b < 192) octs \<Longrightarrow>
   readOctets (length octs) (percentEncodeAll octs @ R) = Some octs"
proof (induction octs)
  case Nil
  show ?case by simp
next
  case (Cons b octs)
  then have b: "128 \<le> b" "b < 192" "b < 256"
    and ih: "readOctets (length octs) (percentEncodeAll octs @ R) = Some octs"
    by simp_all
  have d: "b div 16 < 16" "b mod 16 < 16" using b by simp_all
  show ?case
    using hexUpper_facts(1) [OF d(1)] hexUpper_facts(1) [OF d(2)] hexValue_percent [OF b(3)] b ih
    by (simp add: percentEncodeAll_def percentEncode_def)
qed

lemma length_percentAll: "length (percentEncodeAll octs) = 3 * length octs"
  by (induction octs) (simp_all add: percentEncodeAll_def percentEncode_def)

lemma drop_percentAll: "drop (3 * length octs) (percentEncodeAll octs @ R) = R"
  using length_percentAll [of octs] by (metis append_eq_conv_conj)

lemma split64: "(n::nat) div 64 * 64 + n mod 64 = n"
  by simp

lemma combine64:
  fixes n q A B m :: nat
  assumes "q * 64 + m = n" "A * 64 + B = q"
  shows "A * 4096 + B * 64 + m = n"
  using assms by auto

lemma split4096: "(n::nat) div 4096 * 4096 + n div 64 mod 64 * 64 + n mod 64 = n"
proof -
  have c: "n div 4096 = n div 64 div 64" by (simp add: div_mult2_eq)
  show ?thesis unfolding c by (rule combine64 [OF split64 split64])
qed

lemma combine4096:
  fixes n q A B m :: nat
  assumes "q * 4096 + m = n" "A * 64 + B = q"
  shows "A * 262144 + B * 4096 + m = n"
  using assms by auto

lemma split262144:
  "(n::nat) div 262144 * 262144 + n div 4096 mod 64 * 4096 + (n div 64 mod 64 * 64 + n mod 64) = n"
proof -
  have c: "n div 262144 = n div 4096 div 64" by (simp add: div_mult2_eq)
  have "n div 4096 * 4096 + (n div 64 mod 64 * 64 + n mod 64) = n"
    using split4096 [of n] by simp
  then show ?thesis unfolding c by (rule combine4096 [OF _ split64])
qed

lemma decode_multi:
  assumes b0: "b0 < 256" "0xC0 \<le> b0" "b0 < 0xF8"
    and len: "length octs = (if b0 < 0xE0 then 2 else if b0 < 0xF0 then 3 else 4) - 1"
    and cont: "list_all (\<lambda>b. 128 \<le> b \<and> b < 192) octs"
    and cp: "utf8CodePoint (b0 # octs) = Some cp"
  shows "decodeURIComponent (percentEncodeAll (b0 # octs) @ R)
         = prepend (utf16Units cp) (decodeURIComponent R)"
proof -
  have e: "percentEncodeAll (b0 # octs) @ R = percentEncode b0 @ (percentEncodeAll octs @ R)"
    by (simp add: percentEncodeAll_def)
  have r: "readOctets (length octs) (percentEncodeAll octs @ R) = Some octs"
    using cont by (rule readOctets_percent)
  have d: "drop (3 * length octs) (percentEncodeAll octs @ R) = R"
    by (rule drop_percentAll)
  show ?thesis
    unfolding e decode_percent [OF b0(1)] len [symmetric]
    using b0 r d cp by simp
qed

lemma utf8CodePoint_2:
  assumes "128 \<le> cp" "cp < 0x800"
  shows "utf8CodePoint [0xC0 + cp div 64, 0x80 + cp mod 64] = Some cp"
  using assms by (simp add: utf8CodePoint_def)

lemma utf8CodePoint_3:
  assumes "0x800 \<le> cp" "\<not> (0xD800 \<le> cp \<and> cp \<le> 0xDFFF)"
  shows "utf8CodePoint [0xE0 + cp div 4096, 0x80 + cp div 64 mod 64, 0x80 + cp mod 64] = Some cp"
  using assms split4096 [of cp] by (simp add: utf8CodePoint_def)

lemma utf8CodePoint_4:
  assumes "0x10000 \<le> cp" "cp < 0x110000"
  shows "utf8CodePoint [0xF0 + cp div 262144, 0x80 + cp div 4096 mod 64,
                        0x80 + cp div 64 mod 64, 0x80 + cp mod 64] = Some cp"
  using assms split262144 [of cp] by (simp add: utf8CodePoint_def)

lemma mod64_cont: "128 \<le> 128 + (n::nat) mod 64 \<and> 128 + n mod 64 < 192"
  by simp

lemma decode_codepoint:
  assumes "128 \<le> cp" "cp < 0x110000" "\<not> (0xD800 \<le> cp \<and> cp \<le> 0xDFFF)"
  shows "decodeURIComponent (percentEncodeAll (utf8Octets cp) @ R)
         = prepend (utf16Units cp) (decodeURIComponent R)"
proof -
  consider (two) "cp < 0x800" | (three) "0x800 \<le> cp" "cp < 0x10000" | (four) "0x10000 \<le> cp"
    by linarith
  then show ?thesis
  proof cases
    case two
    have o: "utf8Octets cp = [0xC0 + cp div 64, 0x80 + cp mod 64]"
      using assms two by (simp add: utf8Octets_def)
    have q: "cp div 64 < 32" using two by simp
    show ?thesis unfolding o
      by (rule decode_multi [OF _ _ _ _ _ utf8CodePoint_2 [OF assms(1) two]])
         (use q in \<open>simp_all add: mod64_cont\<close>)
  next
    case three
    have o: "utf8Octets cp = [0xE0 + cp div 4096, 0x80 + cp div 64 mod 64, 0x80 + cp mod 64]"
      using three by (simp add: utf8Octets_def)
    have q: "cp div 4096 < 16" using three by simp
    show ?thesis unfolding o
      by (rule decode_multi [OF _ _ _ _ _ utf8CodePoint_3 [OF three(1) assms(3)]])
         (use q in \<open>simp_all add: mod64_cont\<close>)
  next
    case four
    have o: "utf8Octets cp = [0xF0 + cp div 262144, 0x80 + cp div 4096 mod 64,
                              0x80 + cp div 64 mod 64, 0x80 + cp mod 64]"
      using four by (simp add: utf8Octets_def)
    have q: "cp div 262144 < 8" using assms(2) by simp
    show ?thesis unfolding o
      by (rule decode_multi [OF _ _ _ _ _ utf8CodePoint_4 [OF four assms(2)]])
         (use q in \<open>simp_all add: mod64_cont\<close>)
  qed
qed

lemma utf8Octets_high:
  assumes "128 \<le> cp" "cp < 0x110000"
  shows "list_all (\<lambda>b. 128 \<le> b \<and> b < 256) (utf8Octets cp)"
  using assms by (auto simp: utf8Octets_def mod64_lt div_less_iff_less_mult)

lemma utf16Units_pair:
  assumes "isHighSurrogate c" "isLowSurrogate d"
  shows "utf16Units (pairCodePoint c d) = [c, d]"
proof -
  have c: "0xD800 \<le> unat c" and d: "0xDC00 \<le> unat d" "unat d - 0xDC00 < 0x400"
    using assms unfolding isHighSurrogate_unat isLowSurrogate_unat by linarith+
  have e: "pairCodePoint c d - 0x10000 = (unat c - 0xD800) * 0x400 + (unat d - 0xDC00)"
    by (simp add: pairCodePoint_def)
  have "(pairCodePoint c d - 0x10000) div 0x400 = unat c - 0xD800"
    unfolding e using d(2) by (rule pack_div)
  moreover have "(pairCodePoint c d - 0x10000) mod 0x400 = unat d - 0xDC00"
    unfolding e using d(2) by (rule pack_mod)
  moreover have "0xD800 + (unat c - 0xD800) = unat c" "0xDC00 + (unat d - 0xDC00) = unat d"
    using c d(1) by simp_all
  ultimately show ?thesis
    using pairCodePoint_bounds(1) [OF assms] by (simp add: utf16Units_def)
qed

text \<open>
  \<open>escape\<close> and then \<open>decodeURIComponent\<close> turn the octets of the UTF-8 form of a string
  without a lone surrogate back into the string.
\<close>

lemma decodeURIComponent_escape:
  "wellFormed s \<Longrightarrow> decodeURIComponent (escape (map of_nat (utf8Bytes s))) = Inr s"
proof (induction s rule: wellFormed.induct)
  case 1
  show ?case by (simp add: escape_def)
next
  case (2 c cs)
  show ?case
  proof (cases "isHighSurrogate c")
    case high: True
    from "2.prems" high obtain d ds where cs: "cs = d # ds" and d: "isLowSurrogate d"
      and w: "wellFormed ds"
      by (cases cs) auto
    note ih = "2.IH"(1) [OF high cs w]
    note b = pairCodePoint_bounds [OF high d]
    have hi: "list_all (\<lambda>b. 128 \<le> b \<and> b < 256) (utf8Octets (pairCodePoint c d))"
      by (rule utf8Octets_high) (use b in simp_all)
    have "decodeURIComponent
            (percentEncodeAll (utf8Octets (pairCodePoint c d)) @ escape (map of_nat (utf8Bytes ds)))
          = prepend (utf16Units (pairCodePoint c d))
              (decodeURIComponent (escape (map of_nat (utf8Bytes ds))))"
      by (rule decode_codepoint) (use b in simp_all)
    then show ?thesis
      using high cs ih utf16Units_pair [OF high d] escape_octets [OF hi]
      by (simp add: escape_append prepend_Inr)
  next
    case nh: False
    from "2.prems" nh have nl: "\<not> isLowSurrogate c" and w: "wellFormed cs" by simp_all
    note ih = "2.IH"(2) [OF nh w]
    show ?thesis
    proof (cases "unat c < 128")
      case True
      then have "utf8Octets (unat c) = [unat c]" by (simp add: utf8Octets_def)
      then show ?thesis using nh ih decode_ascii [OF True]
        by (simp add: escape_Cons prepend_Inr)
    next
      case False
      have lt: "unat c < 0x110000" using unat_lt_65536 [of c] by linarith
      have ns: "\<not> (0xD800 \<le> unat c \<and> unat c \<le> 0xDFFF)"
        using nh nl unfolding isHighSurrogate_unat isLowSurrogate_unat by linarith
      have hi: "list_all (\<lambda>b. 128 \<le> b \<and> b < 256) (utf8Octets (unat c))"
        by (rule utf8Octets_high) (use False lt in simp_all)
      have u: "utf16Units (unat c) = [c]"
        using unat_lt_65536 [of c] by (simp add: utf16Units_def)
      have "decodeURIComponent
              (percentEncodeAll (utf8Octets (unat c)) @ escape (map of_nat (utf8Bytes cs)))
            = prepend (utf16Units (unat c))
                (decodeURIComponent (escape (map of_nat (utf8Bytes cs))))"
        by (rule decode_codepoint) (use False lt ns in simp_all)
      then show ?thesis
        using nh ih u escape_octets [OF hi]
        by (simp add: escape_append prepend_Inr)
    qed
  qed
qed

lemma hexValue4: "hexValue [a, b, c, d] =
   hexDigitValue a * 4096 + hexDigitValue b * 256 + (hexDigitValue c * 16 + hexDigitValue d)"
  by (simp add: hexValue_def)

lemma split16: "(n::nat) div 16 * 16 + n mod 16 = n"
  by simp

lemma combine16:
  fixes n q A B m :: nat
  assumes "q * 16 + m = n" "A * 16 + B = q"
  shows "A * 256 + B * 16 + m = n"
  using assms by auto

lemma split256: "(n::nat) div 256 * 256 + n div 16 mod 16 * 16 + n mod 16 = n"
proof -
  have c: "n div 256 = n div 16 div 16" by (simp add: div_mult2_eq)
  show ?thesis unfolding c by (rule combine16 [OF split16 split16])
qed

lemma combine256:
  fixes n q A B m :: nat
  assumes "q * 256 + m = n" "A * 16 + B = q"
  shows "A * 4096 + B * 256 + m = n"
  using assms by auto

lemma split4096_16:
  "(n::nat) div 4096 * 4096 + n div 256 mod 16 * 256 + (n div 16 mod 16 * 16 + n mod 16) = n"
proof -
  have c: "n div 4096 = n div 256 div 16" by (simp add: div_mult2_eq)
  have "n div 256 * 256 + (n div 16 mod 16 * 16 + n mod 16) = n"
    using split256 [of n] by simp
  then show ?thesis unfolding c by (rule combine256 [OF _ split16])
qed

lemma pushChar_Some: "pushChar c (Some (s, r)) = Some (c # s, r)"
  by (simp add: pushChar_def)

lemma escapeChar_u: "escapeChar 0x75 = None"
  by (simp add: escapeChar_def)

lemma lexString_unicodeEscape:
  "lexString (unicodeEscape c @ X) = pushChar c (lexString X)"
proof -
  let ?n = "unat c"
  have n: "?n < 65536" by (rule unat_lt_65536)
  have d: "?n div 4096 < 16" "?n div 256 mod 16 < 16" "?n div 16 mod 16 < 16" "?n mod 16 < 16"
    using n by simp_all
  have v: "hexValue [hexLower (?n div 4096), hexLower (?n div 256 mod 16),
                     hexLower (?n div 16 mod 16), hexLower (?n mod 16)] = ?n"
    unfolding hexValue4 hexLower_facts(2) [OF d(1)] hexLower_facts(2) [OF d(2)]
      hexLower_facts(2) [OF d(3)] hexLower_facts(2) [OF d(4)]
    by (rule split4096_16)
  show ?thesis
    using hexLower_facts(1) [OF d(1)] hexLower_facts(1) [OF d(2)] hexLower_facts(1) [OF d(3)]
      hexLower_facts(1) [OF d(4)] v
    by (simp add: unicodeEscape_def escapeChar_u)
qed

lemma surrogate_plain:
  assumes "isHighSurrogate c \<or> isLowSurrogate c"
  shows "c \<noteq> 0x22" "c \<noteq> 0x5C" "\<not> c < 0x20"
proof -
  have "0xD800 \<le> unat c" using assms unfolding isHighSurrogate_unat isLowSurrogate_unat by linarith
  then show "c \<noteq> 0x22" "c \<noteq> 0x5C" "\<not> c < 0x20"
    by (auto simp: word_less_nat_alt)
qed

lemma lexString_plain:
  "c \<noteq> 0x22 \<Longrightarrow> c \<noteq> 0x5C \<Longrightarrow> \<not> c < 0x20 \<Longrightarrow> lexString (c # X) = pushChar c (lexString X)"
  by simp

lemma lexString_escape:
  "escapeChar e = Some x \<Longrightarrow> lexString (0x5C # e # X) = pushChar x (lexString X)"
  by simp

definition isPlain :: "jschar \<Rightarrow> bool" where
  "isPlain c \<longleftrightarrow> \<not> isHighSurrogate c \<and> \<not> isLowSurrogate c"

lemma isPlain_ascii: "unat c < 128 \<Longrightarrow> isPlain c"
  by (simp add: isPlain_def isHighSurrogate_unat isLowSurrogate_unat)

lemma isPlain_hexLower: "d < 16 \<Longrightarrow> isPlain (hexLower d)"
  by (rule isPlain_ascii) (simp add: unat_hexLower)

lemma plain_unicodeEscape: "list_all isPlain (unicodeEscape c)"
proof -
  let ?n = "unat c"
  have n: "?n < 65536" by (rule unat_lt_65536)
  have d: "?n div 4096 < 16" "?n div 256 mod 16 < 16" "?n div 16 mod 16 < 16" "?n mod 16 < 16"
    using n by simp_all
  show ?thesis
    using isPlain_hexLower [OF d(1)] isPlain_hexLower [OF d(2)] isPlain_hexLower [OF d(3)]
      isPlain_hexLower [OF d(4)]
    by (simp add: unicodeEscape_def isPlain_ascii)
qed

lemma escapeChar_plain: "escapeChar e = Some x \<Longrightarrow> isPlain e"
  by (rule isPlain_ascii) (auto simp: escapeChar_def split: if_splits)

lemma quoteChars_cases:
  "(\<exists>piece. quoteChars (c # cs) = piece @ quoteChars cs \<and> list_all isPlain piece \<and>
             (\<forall>X. lexString (piece @ X) = pushChar c (lexString X))) \<or>
   (\<exists>d ds. cs = d # ds \<and> quoteChars (c # cs) = c # d # quoteChars ds \<and>
            isHighSurrogate c \<and> isLowSurrogate d \<and>
            (\<forall>X. lexString (c # d # X) = pushChar c (pushChar d (lexString X))))"
  (is ?G)
proof -
  have two: "\<And>e. quoteChars (c # cs) = [0x5C, e] @ quoteChars cs \<Longrightarrow> escapeChar e = Some c \<Longrightarrow> ?G"
  proof -
    fix e
    assume q: "quoteChars (c # cs) = [0x5C, e] @ quoteChars cs" and e: "escapeChar e = Some c"
    have "\<forall>X. lexString ([0x5C, e] @ X) = pushChar c (lexString X)"
      using lexString_escape [OF e] by simp
    moreover have "list_all isPlain [0x5C, e]"
      using escapeChar_plain [OF e] by (simp add: isPlain_ascii)
    ultimately show ?G using q by blast
  qed
  have uni: "quoteChars (c # cs) = unicodeEscape c @ quoteChars cs \<Longrightarrow> ?G"
    using lexString_unicodeEscape [of c] plain_unicodeEscape [of c] by blast
  consider (b) "c = 0x08" | (t) "c = 0x09" | (n) "c = 0x0A" | (f) "c = 0x0C" | (r) "c = 0x0D"
    | (q) "c = 0x22" | (s) "c = 0x5C"
    | (other) "c \<noteq> 0x08" "c \<noteq> 0x09" "c \<noteq> 0x0A" "c \<noteq> 0x0C" "c \<noteq> 0x0D" "c \<noteq> 0x22" "c \<noteq> 0x5C"
    by blast
  then show ?thesis
  proof cases
    case b then show ?thesis by (intro two [of 98]) (simp_all add: escapeChar_def)
  next
    case t then show ?thesis by (intro two [of 116]) (simp_all add: escapeChar_def)
  next
    case n then show ?thesis by (intro two [of 110]) (simp_all add: escapeChar_def)
  next
    case f then show ?thesis by (intro two [of 102]) (simp_all add: escapeChar_def)
  next
    case r then show ?thesis by (intro two [of 114]) (simp_all add: escapeChar_def)
  next
    case q then show ?thesis by (intro two [of 34]) (simp_all add: escapeChar_def)
  next
    case s then show ?thesis by (intro two [of 92]) (simp_all add: escapeChar_def)
  next
    case other
    show ?thesis
    proof (cases "c < 0x20")
      case True
      then show ?thesis using other by (intro uni) simp
    next
      case ge: False
      show ?thesis
      proof (cases "isHighSurrogate c")
        case high: True
        show ?thesis
        proof (cases cs)
          case Nil
          then show ?thesis using other ge high by (intro uni) simp
        next
          case (Cons d ds)
          show ?thesis
          proof (cases "isLowSurrogate d")
            case True
            have "\<forall>X. lexString (c # d # X) = pushChar c (pushChar d (lexString X))"
              using surrogate_plain [of c] surrogate_plain [of d] high True by simp
            moreover have "quoteChars (c # cs) = c # d # quoteChars ds"
              using other ge high True Cons by simp
            ultimately show ?thesis using Cons high True by blast
          next
            case False
            then show ?thesis using other ge high Cons by (intro uni) simp
          qed
        qed
      next
        case nh: False
        show ?thesis
        proof (cases "isLowSurrogate c")
          case True
          then show ?thesis using other ge nh by (intro uni) simp
        next
          case False
          have "quoteChars (c # cs) = [c] @ quoteChars cs" using other ge nh False by simp
          moreover have "\<forall>X. lexString ([c] @ X) = pushChar c (lexString X)"
            using other ge by simp
          moreover have "list_all isPlain [c]" using nh False by (simp add: isPlain_def)
          ultimately show ?thesis by blast
        qed
      qed
    qed
  qed
qed

lemma wellFormed_plain_append: "list_all isPlain a \<Longrightarrow> wellFormed (a @ b) = wellFormed b"
  by (induction a) (simp_all add: isPlain_def)

lemma wellFormed_append: "wellFormed a \<Longrightarrow> wellFormed b \<Longrightarrow> wellFormed (a @ b)"
  by (induction a rule: wellFormed.induct) (auto split: list.splits if_splits)

lemma wellFormed_quoteChars: "wellFormed (quoteChars s)"
proof (induction "length s" arbitrary: s rule: less_induct)
  case less
  show ?case
  proof (cases s)
    case Nil
    then show ?thesis by simp
  next
    case (Cons c cs)
    from quoteChars_cases [of c cs] show ?thesis
    proof (elim disjE exE conjE)
      fix piece
      assume q: "quoteChars (c # cs) = piece @ quoteChars cs" and p: "list_all isPlain piece"
      have "wellFormed (quoteChars cs)" by (rule less.hyps) (simp add: Cons)
      then show ?thesis using q wellFormed_plain_append [OF p] by (simp add: Cons)
    next
      fix d ds
      assume cs: "cs = d # ds" and q: "quoteChars (c # cs) = c # d # quoteChars ds"
        and h: "isHighSurrogate c" "isLowSurrogate d"
      have "wellFormed (quoteChars ds)" by (rule less.hyps) (simp add: Cons cs)
      then show ?thesis using q h by (simp add: Cons)
    qed
  qed
qed

lemma wellFormed_quoteJSONString: "wellFormed (quoteJSONString s)"
proof -
  have "wellFormed (quoteChars s @ [0x22])"
    by (rule wellFormed_append [OF wellFormed_quoteChars])
       (simp add: isHighSurrogate_def isLowSurrogate_def)
  then show ?thesis by (simp add: quoteJSONString_def isHighSurrogate_def isLowSurrogate_def)
qed

lemma lexString_quoteChars: "lexString (quoteChars s @ 0x22 # R) = Some (s, R)"
proof (induction "length s" arbitrary: s rule: less_induct)
  case less
  show ?case
  proof (cases s)
    case Nil
    then show ?thesis by simp
  next
    case (Cons c cs)
    from quoteChars_cases [of c cs] show ?thesis
    proof (elim disjE exE conjE)
      fix piece
      assume q: "quoteChars (c # cs) = piece @ quoteChars cs"
        and l: "\<forall>X. lexString (piece @ X) = pushChar c (lexString X)"
      have "lexString (quoteChars cs @ 0x22 # R) = Some (cs, R)"
        by (rule less.hyps) (simp add: Cons)
      then show ?thesis using q l by (simp add: Cons pushChar_Some)
    next
      fix d ds
      assume cs: "cs = d # ds" and q: "quoteChars (c # cs) = c # d # quoteChars ds"
        and l: "\<forall>X. lexString (c # d # X) = pushChar c (pushChar d (lexString X))"
      have "lexString (quoteChars ds @ 0x22 # R) = Some (ds, R)"
        by (rule less.hyps) (simp add: Cons cs)
      then show ?thesis using q l cs by (simp add: Cons pushChar_Some)
    qed
  qed
qed

fun stripUndefined :: "jsval \<Rightarrow> jsval"
  and stripProps :: "(jsstring \<times> jsval) list \<Rightarrow> (jsstring \<times> jsval) list" where
  "stripUndefined (JObj ps) = JObj (stripProps ps)"
| "stripUndefined JUndefined = JUndefined"
| "stripUndefined JNull = JNull"
| "stripUndefined (JBool b) = JBool b"
| "stripUndefined (JStr s) = JStr s"
| "stripProps [] = []"
| "stripProps ((k, v) # ps) =
     (if v = JUndefined then stripProps ps else (k, stripUndefined v) # stripProps ps)"

fun wfVal :: "jsval \<Rightarrow> bool" and wfProps :: "(jsstring \<times> jsval) list \<Rightarrow> bool" where
  "wfVal (JObj ps) = wfProps ps"
| "wfVal JUndefined = True"
| "wfVal JNull = True"
| "wfVal (JBool b) = True"
| "wfVal (JStr s) = True"
| "wfProps [] = True"
| "wfProps ((k, v) # ps) = (k \<notin> fst ` set ps \<and> wfVal v \<and> wfProps ps)"

lemma wellFormed_js_join: "list_all wellFormed ms \<Longrightarrow> wellFormed (js_join 0x2C ms)"
proof (induction ms)
  case Nil
  show ?case by simp
next
  case (Cons p ms)
  show ?case
  proof (cases ms)
    case Nil
    then show ?thesis using Cons.prems by simp
  next
    case (Cons q qs)
    have p: "wellFormed p" and r: "wellFormed (js_join 0x2C ms)"
      using Cons.prems Cons.IH by simp_all
    have "wellFormed (0x2C # js_join 0x2C ms)"
      using r by (simp add: isHighSurrogate_def isLowSurrogate_def)
    then show ?thesis using wellFormed_append [OF p] by (simp add: Cons)
  qed
qed

lemma wellFormed_stringify:
  "(\<forall>t. JSON_stringify v = Some t \<longrightarrow> wellFormed t)"
  "list_all wellFormed (stringifyProps ps)"
proof (induction v and ps rule: wfVal_wfProps.induct)
  case (1 ps)
  have "wellFormed (js_join 0x2C (stringifyProps ps) @ [0x7D])"
    by (rule wellFormed_append [OF wellFormed_js_join [OF 1]])
       (simp add: isHighSurrogate_def isLowSurrogate_def)
  then show ?case by (simp add: isHighSurrogate_def isLowSurrogate_def)
next
  case (4 b)
  show ?case by (simp add: js_def isHighSurrogate_def isLowSurrogate_def)
next
  case (5 s)
  show ?case by (simp add: wellFormed_quoteJSONString)
next
  case (7 k v ps)
  show ?case
  proof (cases "JSON_stringify v")
    case None
    then show ?thesis using 7 by simp
  next
    case (Some t)
    then have "wellFormed (0x3A # t)" using 7(1) by (simp add: isHighSurrogate_def isLowSurrogate_def)
    then have "wellFormed (quoteJSONString k @ 0x3A # t)"
      by (rule wellFormed_append [OF wellFormed_quoteJSONString])
    then show ?thesis using 7(2) Some by simp
  qed
qed (simp_all add: js_def isHighSurrogate_def isLowSurrogate_def)

fun joinTokens :: "token list list \<Rightarrow> token list" where
  "joinTokens [] = []"
| "joinTokens [m] = m"
| "joinTokens (m # n # ms) = m @ TComma # joinTokens (n # ms)"

fun tokensOf :: "jsval \<Rightarrow> token list"
  and propsTokens :: "(jsstring \<times> jsval) list \<Rightarrow> token list list" where
  "tokensOf (JObj ps) = TLBrace # joinTokens (propsTokens ps) @ [TRBrace]"
| "tokensOf JUndefined = []"
| "tokensOf JNull = [TNull]"
| "tokensOf (JBool b) = [if b then TTrue else TFalse]"
| "tokensOf (JStr s) = [TString s]"
| "propsTokens [] = []"
| "propsTokens ((k, v) # ps) =
     (if v = JUndefined then propsTokens ps
      else (TString k # TColon # tokensOf v) # propsTokens ps)"

definition tappend :: "token list \<Rightarrow> jserror + token list \<Rightarrow> jserror + token list" where
  "tappend ts r = (case r of Inl e \<Rightarrow> Inl e | Inr ts' \<Rightarrow> Inr (ts @ ts'))"

lemma tappend_simps: "tappend [] r = r" "tappend (a @ b) r = tappend a (tappend b r)"
  "tappend (t # ts) r = tcons t (tappend ts r)"
  by (cases r; simp add: tappend_def tcons_def)+

lemma lex_punct:
  "lexJSON (0x7B # R) = tcons TLBrace (lexJSON R)"
  "lexJSON (0x7D # R) = tcons TRBrace (lexJSON R)"
  "lexJSON (0x3A # R) = tcons TColon (lexJSON R)"
  "lexJSON (0x2C # R) = tcons TComma (lexJSON R)"
  by (simp_all add: isJsonSpace_def)

lemma lex_words:
  "lexJSON (js ''true'' @ R) = tcons TTrue (lexJSON R)"
  "lexJSON (js ''false'' @ R) = tcons TFalse (lexJSON R)"
  "lexJSON (js ''null'' @ R) = tcons TNull (lexJSON R)"
  by (simp_all add: js_def isJsonSpace_def)

lemma lex_string: "lexJSON (quoteJSONString s @ R) = tcons (TString s) (lexJSON R)"
  by (simp add: quoteJSONString_def isJsonSpace_def lexString_quoteChars)

definition lexesTo :: "jsstring \<Rightarrow> token list \<Rightarrow> bool" where
  "lexesTo m tk \<longleftrightarrow> (\<forall>R. lexJSON (m @ R) = tappend tk (lexJSON R))"

lemma lex_join:
  "list_all2 lexesTo ms tks \<Longrightarrow> lexesTo (js_join 0x2C ms) (joinTokens tks)"
proof (induction ms tks rule: list_all2_induct)
  case Nil
  show ?case by (simp add: lexesTo_def tappend_simps del: lexJSON.simps)
next
  case (Cons m ms tk tks)
  show ?case
  proof (cases ms)
    case Nil
    then have "tks = []" using Cons.hyps by simp
    then show ?thesis using Nil Cons.hyps(1) by simp
  next
    case c: (Cons n ns)
    then obtain tk' tks' where t: "tks = tk' # tks'" using Cons.hyps(2) by (cases tks) auto
    show ?thesis
      using Cons.hyps(1) Cons.IH unfolding c t lexesTo_def
      by (simp add: lex_punct tappend_simps del: lexJSON.simps)
  qed
qed

lemma lex_stringify:
  "(\<forall>t. JSON_stringify v = Some t \<longrightarrow> lexesTo t (tokensOf v))"
  "list_all2 lexesTo (stringifyProps ps) (propsTokens ps)"
proof (induction v and ps rule: wfVal_wfProps.induct)
  case (1 ps)
  have "lexesTo (js_join 0x2C (stringifyProps ps)) (joinTokens (propsTokens ps))"
    using 1 by (rule lex_join)
  then show ?case
    by (simp add: lexesTo_def lex_punct tappend_simps del: lexJSON.simps)
next
  case 2
  show ?case by simp
next
  case 3
  show ?case using lex_words(3) by (simp add: lexesTo_def tappend_simps del: lexJSON.simps)
next
  case (4 b)
  show ?case using lex_words(1,2) by (simp add: lexesTo_def tappend_simps del: lexJSON.simps)
next
  case (5 s)
  show ?case using lex_string by (simp add: lexesTo_def tappend_simps del: lexJSON.simps)
next
  case 6
  show ?case by simp
next
  case (7 k v ps)
  show ?case
  proof (cases "JSON_stringify v")
    case None
    then have "v = JUndefined" by (cases v) simp_all
    then show ?thesis using 7 by simp
  next
    case (Some t)
    then have nu: "v \<noteq> JUndefined" by auto
    have "lexesTo t (tokensOf v)" using 7(1) Some by simp
    then have "lexesTo (quoteJSONString k @ 0x3A # t) (TString k # TColon # tokensOf v)"
      unfolding lexesTo_def
      by (simp add: lex_string lex_punct tappend_simps del: lexJSON.simps)
    then show ?thesis using 7(2) Some nu by simp
  qed
qed

fun runSteps :: "pframe list \<times> pmode \<Rightarrow> token list \<Rightarrow> (pframe list \<times> pmode) option" where
  "runSteps c [] = Some c"
| "runSteps c (t # ts) = (case parseStep c t of None \<Rightarrow> None | Some c' \<Rightarrow> runSteps c' ts)"

lemma parseTokens_runSteps:
  "parseTokens c ts =
     (case runSteps c ts of
        None \<Rightarrow> Inl SyntaxError
      | Some c' \<Rightarrow> (case snd c' of PDone v \<Rightarrow> Inr v | _ \<Rightarrow> Inl SyntaxError))"
  by (induction ts arbitrary: c) (simp_all split: option.splits)

lemma runSteps_append:
  "runSteps c (a @ b) = (case runSteps c a of None \<Rightarrow> None | Some c' \<Rightarrow> runSteps c' b)"
  by (induction a arbitrary: c) (simp_all split: option.splits)

definition commaTokens :: "token list list \<Rightarrow> token list" where
  "commaTokens ms = concat (map (\<lambda>m. TComma # m) ms)"

lemma joinTokens_comma: "joinTokens (m # ms) = m @ commaTokens ms"
  by (induction ms arbitrary: m) (simp_all add: commaTokens_def)

lemma setProp_new: "k \<notin> fst ` set acc \<Longrightarrow> setProp acc k v = acc @ [(k, v)]"
  by (induction acc) auto

lemma step_simps:
  "parseStep (st, PValue) (TString s) = Some (deliver st (JStr s))"
  "parseStep (st, PValue) TTrue = Some (deliver st (JBool True))"
  "parseStep (st, PValue) TFalse = Some (deliver st (JBool False))"
  "parseStep (st, PValue) TNull = Some (deliver st JNull)"
  "parseStep (st, PValue) TLBrace = Some (st, PObjStart)"
  "parseStep (st, PObjStart) TRBrace = Some (deliver st (JObj []))"
  "parseStep (st, PObjStart) (TString k) = Some (st, PColon [] k)"
  "parseStep (st, PKey props) (TString k) = Some (st, PColon props k)"
  "parseStep (st, PColon props k) TColon = Some ((props, k) # st, PValue)"
  "parseStep (st, PAfterMember props) TComma = Some (st, PKey props)"
  "parseStep (st, PAfterMember props) TRBrace = Some (deliver st (JObj props))"
  by (simp_all add: parseStep_def)

lemma deliver_frame: "deliver ((props, k) # st) v = (st, PAfterMember (setProp props k v))"
  by (simp add: deliver_def)

text \<open>
  Reading the tokens of a value delivers the value without its undefined properties; reading
  the members of an object, each after a comma, adds them to the properties read so far.
\<close>

lemma run_tokens:
  "v \<noteq> JUndefined \<longrightarrow> wfVal v \<longrightarrow>
     (\<forall>st. runSteps (st, PValue) (tokensOf v) = Some (deliver st (stripUndefined v)))"
  "wfProps ps \<longrightarrow>
     (\<forall>st acc. fst ` set acc \<inter> fst ` set ps = {} \<longrightarrow>
        runSteps (st, PAfterMember acc) (commaTokens (propsTokens ps))
          = Some (st, PAfterMember (acc @ stripProps ps)))"
proof (induction v and ps rule: wfVal_wfProps.induct)
  case (1 ps)
  show ?case
  proof (intro impI allI)
    fix st :: "pframe list"
    assume wf: "wfVal (JObj ps)"
    then have m: "\<forall>st acc. fst ` set acc \<inter> fst ` set ps = {} \<longrightarrow>
        runSteps (st, PAfterMember acc) (commaTokens (propsTokens ps))
          = Some (st, PAfterMember (acc @ stripProps ps))"
      using 1 by simp
    show "runSteps (st, PValue) (tokensOf (JObj ps)) = Some (deliver st (stripUndefined (JObj ps)))"
    proof (cases "propsTokens ps")
      case Nil
      then have "stripProps ps = []"
        by (induction ps) (auto split: if_splits)
      then show ?thesis using Nil by (simp add: step_simps)
    next
      case (Cons mt ms)
      then obtain k Y where mt: "mt = TString k # Y"
        by (induction ps) (auto split: if_splits)
      have "runSteps (st, PAfterMember []) (commaTokens (propsTokens ps))
            = Some (st, PAfterMember (stripProps ps))"
        using m by simp
      then have "runSteps (st, PKey []) (joinTokens (propsTokens ps))
            = Some (st, PAfterMember (stripProps ps))"
        unfolding Cons joinTokens_comma by (simp add: commaTokens_def step_simps)
      then have "runSteps (st, PObjStart) (joinTokens (propsTokens ps))
            = Some (st, PAfterMember (stripProps ps))"
        unfolding Cons joinTokens_comma mt by (simp add: step_simps)
      then show ?thesis
        by (simp add: step_simps runSteps_append)
    qed
  qed
next
  case 2
  show ?case by simp
next
  case 3
  show ?case by (simp add: step_simps)
next
  case (4 b)
  show ?case by (simp add: step_simps)
next
  case (5 s)
  show ?case by (simp add: step_simps)
next
  case 6
  show ?case by (simp add: commaTokens_def)
next
  case (7 k v ps)
  show ?case
  proof (intro impI allI)
    fix st :: "pframe list" and acc :: "(jsstring \<times> jsval) list"
    assume wf: "wfProps ((k, v) # ps)"
      and dj: "fst ` set acc \<inter> fst ` set ((k, v) # ps) = {}"
    from wf have kps: "k \<notin> fst ` set ps" and wv: "wfVal v" and wps: "wfProps ps" by simp_all
    from dj have kacc: "k \<notin> fst ` set acc" and dj': "fst ` set acc \<inter> fst ` set ps = {}" by auto
    show "runSteps (st, PAfterMember acc) (commaTokens (propsTokens ((k, v) # ps)))
          = Some (st, PAfterMember (acc @ stripProps ((k, v) # ps)))"
    proof (cases "v = JUndefined")
      case True
      then show ?thesis using 7(2) wps dj' by simp
    next
      case False
      have val: "runSteps ((acc, k) # st, PValue) (tokensOf v)
                 = Some (st, PAfterMember (acc @ [(k, stripUndefined v)]))"
        using 7(1) False wv kacc by (simp add: deliver_frame setProp_new)
      have "fst ` set (acc @ [(k, stripUndefined v)]) \<inter> fst ` set ps = {}"
        using dj' kps by auto
      then have rest: "runSteps (st, PAfterMember (acc @ [(k, stripUndefined v)]))
                         (commaTokens (propsTokens ps))
                       = Some (st, PAfterMember ((acc @ [(k, stripUndefined v)]) @ stripProps ps))"
        using 7(2) wps by blast
      have "commaTokens (propsTokens ((k, v) # ps))
            = [TComma, TString k, TColon] @ tokensOf v @ commaTokens (propsTokens ps)"
        using False by (simp add: commaTokens_def)
      then show ?thesis
        using False val rest by (simp add: runSteps_append step_simps)
    qed
  qed
qed

lemma stringify_defined: "v \<noteq> JUndefined \<Longrightarrow> \<exists>t. JSON_stringify v = Some t"
  by (cases v) simp_all

text \<open>\<open>JSON.parse\<close> of the text that \<open>JSON.stringify\<close> gives for a value.\<close>

lemma JSON_parse_stringify:
  assumes "v \<noteq> JUndefined" "wfVal v" "JSON_stringify v = Some t"
  shows "JSON_parse t = Inr (stripUndefined v)"
proof -
  have "lexesTo t (tokensOf v)" using lex_stringify(1) [of v] assms(3) by simp
  then have "lexJSON (t @ []) = tappend (tokensOf v) (lexJSON [])"
    unfolding lexesTo_def by blast
  then have l: "lexJSON t = Inr (tokensOf v)" by (simp add: tappend_def)
  have "runSteps ([], PValue) (tokensOf v) = Some (deliver [] (stripUndefined v))"
    using run_tokens(1) [of v] assms(1,2) by simp
  then show ?thesis
    by (simp add: JSON_parse_def l parseTokens_runSteps deliver_def)
qed

lemma octets_small:
  "list_all (\<lambda>b. b < 256) bs \<Longrightarrow> \<not> list_ex (\<lambda>c. c > 0xFF) (map of_nat bs :: jsstring)"
  by (induction bs) (auto simp: word_less_nat_alt unat_of_nat16)

lemma map_unat_octets:
  "list_all (\<lambda>b. b < 256) bs \<Longrightarrow> map unat (map of_nat bs :: jsstring) = bs"
  by (induction bs) (auto simp: unat_of_nat16)

lemma encodeObj_octets:
  assumes "JSON_stringify v = Some t"
  shows "encodeObj v = Inr (base64Encode (utf8Bytes t))"
proof -
  have wf: "wellFormed t" using wellFormed_stringify(1) [of v] assms by simp
  obtain e where e: "encodeURIComponent t = Inr e" "unescape e = map of_nat (utf8Bytes t)"
    using unescape_encodeURIComponent [OF wf] by blast
  show ?thesis
    using octets_small [OF utf8Bytes_bound [of t]] map_unat_octets [OF utf8Bytes_bound [of t]]
    by (simp add: encodeObj_def assms e btoa_def)
qed

lemma decodeObj_octets:
  assumes "v \<noteq> JUndefined" "wfVal v" "JSON_stringify v = Some t"
  shows "decodeObj (base64Encode (utf8Bytes t)) = Inr (stripUndefined v)"
proof -
  have wf: "wellFormed t" using wellFormed_stringify(1) [of v] assms(3) by simp
  show ?thesis
    by (simp add: decodeObj_def atob_base64Encode [OF utf8Bytes_bound]
          decodeURIComponent_escape [OF wf] JSON_parse_stringify [OF assms])
qed

lemma decodeObj_encodeObj:
  assumes "v \<noteq> JUndefined" "wfVal v"
  shows "\<exists>token. encodeObj v = Inr token \<and> decodeObj token = Inr (stripUndefined v)"
proof -
  obtain t where t: "JSON_stringify v = Some t" using stringify_defined [OF assms(1)] by blast
  show ?thesis using encodeObj_octets [OF t] decodeObj_octets [OF assms t] by simp
qed

lemma wfProps_iff:
  "wfProps ps \<longleftrightarrow> distinct (map fst ps) \<and> list_all (\<lambda>p. wfVal (snd p)) ps"
  by (induction ps) (auto simp flip: set_map)

lemma keys_setProp: "fst ` set (setProp ps k v) = insert k (fst ` set ps)"
proof (induction ps)
  case Nil
  show ?case by simp
next
  case (Cons p ps)
  then show ?case by (cases p) (simp add: insert_commute)
qed

lemma distinct_setProp: "distinct (map fst ps) \<Longrightarrow> distinct (map fst (setProp ps k v))"
proof (induction ps)
  case Nil
  show ?case by simp
next
  case (Cons p ps)
  then show ?case by (cases p) (auto simp: keys_setProp)
qed

lemma list_all_setProp: "list_all P ps \<Longrightarrow> P (k, v) \<Longrightarrow> list_all P (setProp ps k v)"
  by (induction ps) auto

lemma wfProps_setProp: "wfProps ps \<Longrightarrow> wfVal v \<Longrightarrow> wfProps (setProp ps k v)"
  unfolding wfProps_iff using distinct_setProp [of ps k v]
  by (simp add: list_all_setProp)

lemma lookup_absent: "k \<notin> fst ` set ps \<Longrightarrow> lookupProp ps k = JUndefined"
proof (induction ps)
  case Nil
  show ?case by simp
next
  case (Cons p ps)
  then show ?case by (cases p) auto
qed

lemma keys_stripProps: "fst ` set (stripProps ps) \<subseteq> fst ` set ps"
proof (induction ps)
  case Nil
  show ?case by simp
next
  case (Cons p ps)
  then show ?case by (cases p) (simp add: subset_insertI2)
qed

lemma lookup_stripProps:
  "wfProps ps \<Longrightarrow> lookupProp (stripProps ps) k = stripUndefined (lookupProp ps k)"
proof (induction ps)
  case Nil
  show ?case by simp
next
  case (Cons p ps)
  obtain k' v' where p: "p = (k', v')" by (cases p)
  have "k' \<notin> fst ` set ps" using Cons.prems by (simp add: p)
  then have "k' \<notin> fst ` set (stripProps ps)" using keys_stripProps [of ps] by blast
  then have "lookupProp (stripProps ps) k' = JUndefined" by (rule lookup_absent)
  then show ?case using Cons by (auto simp: p)
qed

definition plainVal :: "jsval \<Rightarrow> bool" where
  "plainVal v \<longleftrightarrow> v \<noteq> JUndefined \<and> stripUndefined v = v"

lemma stripProps_plain: "list_all (\<lambda>p. plainVal (snd p)) ps \<Longrightarrow> stripProps ps = ps"
  by (induction ps) (auto simp: plainVal_def)

lemma plainVal_JObj: "list_all (\<lambda>p. plainVal (snd p)) ps \<Longrightarrow> plainVal (JObj ps)"
  by (simp add: plainVal_def stripProps_plain)

lemma lookup_fixed:
  "list_all (\<lambda>p. stripUndefined (snd p) = snd p) ps \<Longrightarrow>
   stripUndefined (lookupProp ps k) = lookupProp ps k"
  by (induction ps) auto

lemma list_all_present:
  "list_all P (present k v) \<longleftrightarrow> (case v of None \<Rightarrow> True | Some x \<Rightarrow> P (k, x))"
  by (cases v) simp_all

lemma keys_present: "map fst (present k v) = (if v = None then [] else [k])"
  by (cases v) simp_all

lemma plainVal_simps: "plainVal (JStr s)" "plainVal (JBool b)" "plainVal (resumeToJs r)"
  by (simp_all add: plainVal_def resumeToJs_def)

lemma plain_linksProps: "list_all (\<lambda>p. plainVal (snd p)) (linksProps l)"
  by (simp add: linksProps_def list_all_present plainVal_simps resumeFieldToJs_def
        split: option.split resumeField.split)

lemma wfVal_plain_flat: "list_all (\<lambda>p. \<exists>s. snd p = JStr s) ps \<Longrightarrow> list_all (\<lambda>p. wfVal (snd p)) ps"
  by (induction ps) auto

lemma distinct_linksProps: "distinct (map fst (linksProps l))"
  by (simp add: linksProps_def keys_present js_def)

lemma wfVal_linksProps: "list_all (\<lambda>p. wfVal (snd p)) (linksProps l)"
  by (simp add: linksProps_def list_all_present resumeFieldToJs_def resumeToJs_def js_def
        split: option.split resumeField.split)

lemma wfVal_visibilityToJs: "wfVal (visibilityToJs v)"
  by (simp add: visibilityToJs_def wfProps_iff keys_present list_all_present js_def
        split: option.split)

lemma plainVal_visibilityToJs: "plainVal (visibilityToJs v)"
  unfolding visibilityToJs_def
  by (rule plainVal_JObj) (simp add: list_all_present plainVal_simps split: option.split)

lemma plainVal_allVisible: "plainVal allVisible" "wfVal allVisible"
  by (simp_all add: allVisible_def plainVal_def js_def)

lemma optStr_simps: "wfVal (optStr x)" "stripUndefined (optStr x) = optStr x"
  by (cases x; simp add: optStr_def)+

lemma plainVal_fixed: "plainVal v \<Longrightarrow> stripUndefined v = v"
  by (simp add: plainVal_def)

lemma links_object:
  "wfVal (JObj (setProp ps0 (js ''resume'') (resumeToJs r)))"
  "plainVal (JObj (setProp ps0 (js ''resume'') (resumeToJs r)))"
  if "ps0 = [] \<or> ps0 = linksProps l"
proof -
  have d: "distinct (map fst ps0)" and w: "list_all (\<lambda>p. wfVal (snd p)) ps0"
    and p: "list_all (\<lambda>p. plainVal (snd p)) ps0"
    using that distinct_linksProps [of l] wfVal_linksProps [of l] plain_linksProps [of l] by auto
  have "wfProps ps0" using d w by (simp add: wfProps_iff)
  moreover have "wfVal (resumeToJs r)" by (simp add: resumeToJs_def js_def)
  ultimately show "wfVal (JObj (setProp ps0 (js ''resume'') (resumeToJs r)))"
    by (simp add: wfProps_setProp)
  show "plainVal (JObj (setProp ps0 (js ''resume'') (resumeToJs r)))"
    by (rule plainVal_JObj) (simp add: list_all_setProp p plainVal_simps)
qed

lemma lookup_setProp: "lookupProp (setProp ps k v) k = v"
proof (induction ps)
  case Nil
  show ?case by simp
next
  case (Cons p ps)
  then show ?case by (cases p) simp
qed

lemma buildShareObj_props:
  "\<exists>ps. buildShareObj c fq = JObj ps \<and> wfProps ps \<and>
        list_all (\<lambda>p. stripUndefined (snd p) = snd p) ps \<and>
        (\<exists>r. getProp (lookupProp ps (js ''portfolioLinks'')) (js ''resume'') = resumeToJs r)"
proof -
  define ps0 where "ps0 = (case portfolioLinks c of None \<Rightarrow> [] | Some l \<Rightarrow> linksProps l)"
  define r where "r =
    (case portfolioLinks c of
       None \<Rightarrow> \<lparr> pdf = [], docx = [] \<rparr>
     | Some l \<Rightarrow>
         (case resume l of
            Some (ResumeString s) \<Rightarrow> \<lparr> pdf = s, docx = [] \<rparr>
          | Some (ResumeObject r) \<Rightarrow> r
          | None \<Rightarrow> \<lparr> pdf = [], docx = [] \<rparr>))"
  define pd where "pd =
    (case profilePic c of
       None \<Rightarrow> None
     | Some p \<Rightarrow>
         if fq \<and> p \<noteq> [] \<and> startsWith p (js ''data:image'')
         then Some (compressImageForQR p)
         else Some p)"
  define L where "L = JObj (setProp ps0 (js ''resume'') (resumeToJs r))"
  define V where "V =
    (case portfolioVisibility c of None \<Rightarrow> allVisible | Some v \<Rightarrow> visibilityToJs v)"
  define ps where "ps =
    [(js ''firstName'', optStr (firstName c)),
     (js ''lastName'', optStr (lastName c)),
     (js ''jobTitle'', optStr (jobTitle c)),
     (js ''email'', optStr (email c)),
     (js ''phone'', optStr (phone c)),
     (js ''phoneE164'', optStr (phoneE164 c)),
     (js ''linkedin'', optStr (linkedin c)),
     (js ''cardColor'', optStr (cardColor c)),
     (js ''bgColor'', optStr (bgColor c)),
     (js ''profilePic'', optStr pd),
     (js ''portfolioLinks'', L),
     (js ''portfolioVisibility'', V)]"
  have ps0: "ps0 = [] \<or> ps0 = linksProps (the (portfolioLinks c))"
    by (cases "portfolioLinks c") (simp_all add: ps0_def)
  have L: "wfVal L" "plainVal L"
    unfolding L_def by (rule links_object [OF ps0])+
  have V: "wfVal V" "plainVal V"
    by (cases "portfolioVisibility c";
        simp add: V_def plainVal_allVisible wfVal_visibilityToJs plainVal_visibilityToJs)+
  have b: "buildShareObj c fq = JObj ps"
    by (simp add: buildShareObj_def ps_def L_def V_def pd_def r_def ps0_def)
  have keys: "distinct (map fst ps)" by (simp add: ps_def js_def)
  have vals: "list_all (\<lambda>p. wfVal (snd p)) ps"
    by (simp add: ps_def optStr_simps L V)
  have fixed: "list_all (\<lambda>p. stripUndefined (snd p) = snd p) ps"
    by (simp add: ps_def optStr_simps plainVal_fixed [OF L(2)] plainVal_fixed [OF V(2)])
  have "lookupProp ps (js ''portfolioLinks'') = L" by (simp add: ps_def js_def)
  then have "getProp (lookupProp ps (js ''portfolioLinks'')) (js ''resume'') = resumeToJs r"
    by (simp add: L_def getProp_def lookup_setProp)
  then show ?thesis using b keys vals fixed unfolding wfProps_iff by blast
qed

text \<open>
  C1. For every stored card and either value of \<open>forQRCode\<close>, \<open>encodeObj\<close> of the
  shareable form returns a token, and \<open>decodeObj\<close> of that token returns an object that
  has, under every property name, the value that the shareable form has there (a property
  that is \<open>undefined\<close> in the shareable form is absent from the decoded object, and reads
  as \<open>undefined\<close>); its \<open>portfolioLinks.resume\<close> is an object of the two properties
  \<open>pdf\<close> and \<open>docx\<close>. No bound on the size of the card is needed.
\<close>

theorem decodeObj_encodeObj_buildShareObj:
  "\<exists>token decoded.
     encodeObj (buildShareObj cardData forQRCode) = Inr token \<and>
     decodeObj token = Inr decoded \<and>
     decoded = stripUndefined (buildShareObj cardData forQRCode) \<and>
     (\<forall>k. getProp decoded k = getProp (buildShareObj cardData forQRCode) k) \<and>
     (\<exists>r. getProp (getProp decoded (js ''portfolioLinks'')) (js ''resume'') = resumeToJs r)"
proof -
  obtain ps r where b: "buildShareObj cardData forQRCode = JObj ps" and wf: "wfProps ps"
    and fixed: "list_all (\<lambda>p. stripUndefined (snd p) = snd p) ps"
    and res: "getProp (lookupProp ps (js ''portfolioLinks'')) (js ''resume'') = resumeToJs r"
    using buildShareObj_props [of cardData forQRCode] by blast
  obtain token where t: "encodeObj (JObj ps) = Inr token"
    "decodeObj token = Inr (stripUndefined (JObj ps))"
    using decodeObj_encodeObj [of "JObj ps"] wf by auto
  have same: "getProp (stripUndefined (JObj ps)) k = getProp (JObj ps) k" for k
    by (simp add: getProp_def lookup_stripProps [OF wf] lookup_fixed [OF fixed])
  have "getProp (getProp (stripUndefined (JObj ps)) (js ''portfolioLinks'')) (js ''resume'')
        = resumeToJs r"
    using res by (simp only: same) (simp add: getProp_def)
  then show ?thesis using t same unfolding b by blast
qed

end
